theory Spec2Isabelle
  imports Main "HOL-Library.Word"
begin

section \<open>The archive-access layer of muos_frontend\<close>

text \<open>
  A shallow embedding of \<^verbatim>\<open>src/common/archive.c\<close> (handler registry, extension
  matcher, listing facade) and \<^verbatim>\<open>src/common/archive_ssmc.c\<close> (the SSMC handler:
  lister and extractor).  C strings are \<open>string\<close>s without the terminating NUL, a
  nullable \<^verbatim>\<open>char *\<close> is a \<open>string option\<close>, a counted C array is a list.
\<close>

subsection \<open>libc string functions\<close>

text \<open>\<^verbatim>\<open>tolower\<close> in the C locale: only the letters A to Z change.\<close>

definition tolower :: "char \<Rightarrow> char" where
  "tolower c =
     (if 65 \<le> (of_char c :: nat) \<and> (of_char c :: nat) \<le> 90
      then char_of ((of_char c :: nat) + 32) else c)"

text \<open>\<^verbatim>\<open>strcasecmp(a, b) == 0\<close>: the strings have the same length and agree character
  by character after \<^verbatim>\<open>tolower\<close>.\<close>

fun strcasecmp_eq :: "string \<Rightarrow> string \<Rightarrow> bool" where
  "strcasecmp_eq [] [] = True"
| "strcasecmp_eq (x # xs) (y # ys) = (tolower x = tolower y \<and> strcasecmp_eq xs ys)"
| "strcasecmp_eq _ _ = False"

text \<open>\<^verbatim>\<open>strrchr(s, c)\<close>: the position of the last occurrence of \<open>c\<close> in \<open>s\<close>, or
  \<open>None\<close> for the NULL pointer.  The pointer returned by C is \<open>s + i\<close>, that is the
  suffix \<open>drop i s\<close>.\<close>

fun strrchr :: "string \<Rightarrow> char \<Rightarrow> nat option" where
  "strrchr [] c = None"
| "strrchr (x # xs) c =
     (case strrchr xs c of
        Some i \<Rightarrow> Some (Suc i)
      | None \<Rightarrow> if x = c then Some 0 else None)"

text \<open>\<^verbatim>\<open>strchr(s, c) == NULL\<close>: \<open>c\<close> does not occur in \<open>s\<close>.\<close>

definition strchr_null :: "string \<Rightarrow> char \<Rightarrow> bool" where
  "strchr_null s c = (c \<notin> set s)"

subsection \<open>Extension matcher (archive.c, lines 57-70)\<close>

text \<open>The loop over the NULL-terminated array \<^verbatim>\<open>extensions\<close>; the list holds the
  entries before the terminator.\<close>

fun ext_loop :: "string \<Rightarrow> string list \<Rightarrow> bool" where
  "ext_loop file_ext [] = False"
| "ext_loop file_ext (e # es) =
     (if strcasecmp_eq file_ext e then True else ext_loop file_ext es)"

definition archive_helper_is_ext_supported :: "string \<Rightarrow> string list \<Rightarrow> bool" where
  "archive_helper_is_ext_supported filename extensions =
     (case strrchr filename (CHR ''.'') of
        None \<Rightarrow> False
      | Some i \<Rightarrow>
          if i = 0 then False
          else ext_loop (drop i filename) extensions)"

text \<open>The matcher as the specification words it: the extension is the substring
  \<^emph>\<open>after\<close> the last dot, and that substring is compared with the entries.\<close>

definition spec_is_ext_supported :: "string \<Rightarrow> string list \<Rightarrow> bool" where
  "spec_is_ext_supported filename extensions =
     (case strrchr filename (CHR ''.'') of
        None \<Rightarrow> False
      | Some i \<Rightarrow>
          if i = 0 then False
          else list_ex (\<lambda>e. map tolower (drop (Suc i) filename) = map tolower e) extensions)"

subsection \<open>Bytes, the file system and fallible C library calls\<close>

type_synonym byte = "8 word"

text \<open>
  The world a call runs in: the files on disk (path to contents) and two schedules of
  injected failures.  Every C library call that can fail for a reason outside the
  program and whose result the source tests (\<^verbatim>\<open>malloc\<close>, \<^verbatim>\<open>strdup\<close>, \<^verbatim>\<open>realloc\<close>,
  \<^verbatim>\<open>fopen\<close>, \<^verbatim>\<open>fseek\<close>, \<^verbatim>\<open>fread\<close>, \<^verbatim>\<open>fwrite\<close>) takes the next entry of
  \<open>faults\<close>: \<open>True\<close> makes the call fail.  \<^verbatim>\<open>remove\<close>, whose result the source
  ignores, takes the next entry of \<open>remove_faults\<close>; it has a schedule of its own so
  that a property can say whether the removal a call makes succeeds.  An empty
  schedule injects nothing.  \<^verbatim>\<open>fclose\<close> and \<^verbatim>\<open>free\<close> change nothing that is
  modelled.  Paths are compared as strings: two spellings of one file are two paths.
\<close>

record world =
  files :: "string \<Rightarrow> byte list option"
  faults :: "bool list"
  remove_faults :: "bool list"

definition fault :: "world \<Rightarrow> bool \<times> world" where
  "fault w = (case faults w of [] \<Rightarrow> (False, w) | b # bs \<Rightarrow> (b, w\<lparr>faults := bs\<rparr>))"

text \<open>\<^verbatim>\<open>malloc(n)\<close>, \<^verbatim>\<open>strdup(s)\<close>, \<^verbatim>\<open>realloc(p, n)\<close>: \<open>True\<close> for a non-NULL result.
  The contents of a buffer are carried by the values of the model, so only the
  success of the allocation is recorded.\<close>

definition malloc :: "nat \<Rightarrow> world \<Rightarrow> bool \<times> world" where
  "malloc n w = (let (b, w') = fault w in (\<not> b, w'))"

definition strdup :: "string \<Rightarrow> world \<Rightarrow> bool \<times> world" where
  "strdup s w = (let (b, w') = fault w in (\<not> b, w'))"

definition realloc :: "nat \<Rightarrow> world \<Rightarrow> bool \<times> world" where
  "realloc n w = (let (b, w') = fault w in (\<not> b, w'))"

text \<open>A stream opened with mode \<^verbatim>\<open>rb\<close>: the bytes the file held when it was opened
  and the position set by the last \<^verbatim>\<open>fseek\<close>.  The stream does not see later
  writes to the disk; this is exact as long as the output file of an extraction is not
  the archive itself.\<close>

record FILE =
  content :: "byte list"
  pos :: nat

definition fopen_rb :: "string \<Rightarrow> world \<Rightarrow> FILE option \<times> world" where
  "fopen_rb p w =
     (let (b, w') = fault w in
      if b then (None, w')
      else (case files w' p of
              None \<Rightarrow> (None, w')
            | Some bs \<Rightarrow> (Some \<lparr>content = bs, pos = 0\<rparr>, w')))"

text \<open>\<^verbatim>\<open>fseek(f, off, SEEK_SET)\<close>: \<open>None\<close> for a non-zero return.\<close>

definition fseek_set :: "FILE \<Rightarrow> nat \<Rightarrow> world \<Rightarrow> FILE option \<times> world" where
  "fseek_set f off w =
     (let (b, w') = fault w in
      if b then (None, w') else (Some (f\<lparr>pos := off\<rparr>), w'))"

text \<open>\<^verbatim>\<open>fread(buf, 1, n, f) == n\<close> (and \<^verbatim>\<open>fread(buf, n, 1, f) == 1\<close>): \<open>Some\<close> of the
  \<open>n\<close> bytes when all of them could be read, \<open>None\<close> for a short read.  A read of
  no byte returns 0, which is the count asked for, wherever the position is.  Every
  later read of the source is preceded by an \<^verbatim>\<open>fseek\<close>, so the advanced position is
  not kept.\<close>

definition fread :: "nat \<Rightarrow> FILE \<Rightarrow> world \<Rightarrow> byte list option \<times> world" where
  "fread n f w =
     (let (b, w') = fault w in
      if b then (None, w')
      else if n = 0 \<or> pos f + n \<le> length (content f)
           then (Some (take n (drop (pos f) (content f))), w')
           else (None, w'))"

text \<open>\<^verbatim>\<open>fopen(p, "wb")\<close> creates or truncates the file; \<^verbatim>\<open>fwrite\<close> appends to it.
  The output stream is named by its path.\<close>

definition fopen_wb :: "string \<Rightarrow> world \<Rightarrow> bool \<times> world" where
  "fopen_wb p w =
     (let (b, w') = fault w in
      if b then (False, w') else (True, w'\<lparr>files := (files w')(p \<mapsto> [])\<rparr>))"

definition fwrite :: "byte list \<Rightarrow> string \<Rightarrow> world \<Rightarrow> bool \<times> world" where
  "fwrite bs p w =
     (let (b, w') = fault w in
      if b then (False, w')
      else (True, w'\<lparr>files := (files w')(p \<mapsto> (case files w' p of None \<Rightarrow> bs | Some old \<Rightarrow> old @ bs))\<rparr>))"

text \<open>\<^verbatim>\<open>remove(p)\<close>: \<open>True\<close> for the result 0.  The call fails, and leaves the disk
  as it is, when its schedule says so or when there is no file at \<open>p\<close>; otherwise it
  deletes the file.\<close>

definition remove_file :: "string \<Rightarrow> world \<Rightarrow> bool \<times> world" where
  "remove_file p w =
     (let (b, w') = (case remove_faults w of
                       [] \<Rightarrow> (False, w)
                     | b # bs \<Rightarrow> (b, w\<lparr>remove_faults := bs\<rparr>))
      in if b \<or> files w' p = None then (False, w')
         else (True, w'\<lparr>files := (files w')(p := None)\<rparr>))"

text \<open>The next \<^verbatim>\<open>remove\<close> is not made to fail by its schedule.\<close>

definition remove_succeeds :: "world \<Rightarrow> bool" where
  "remove_succeeds w = (case remove_faults w of [] \<Rightarrow> True | b # bs \<Rightarrow> \<not> b)"

text \<open>\<^verbatim>\<open>memcmp(a, b, n) == 0\<close>.\<close>

definition memcmp_eq :: "byte list \<Rightarrow> byte list \<Rightarrow> nat \<Rightarrow> bool" where
  "memcmp_eq a b n = (take n a = take n b)"

text \<open>The conversion \<^verbatim>\<open>(int)n\<close> of a \<^verbatim>\<open>uintptr_t\<close> to a 32-bit \<^verbatim>\<open>int\<close>: the low 32
  bits, read as two's complement.\<close>

definition cast_int :: "nat \<Rightarrow> int" where
  "cast_int n = sint (word_of_nat n :: 32 word)"

subsection \<open>The sprite_shrink library (external to the repository)\<close>

text \<open>
  \<^verbatim>\<open>sprite_shrink/sprite_shrink.h\<close> is not part of the repository.  Its types are
  taken from the fields the source reads; its functions and constants are parameters
  of the model, collected in the record \<open>sprite_shrink\<close> below.
\<close>

record FileHeader =
  magic_num :: "byte list"
  hash_type :: nat
  man_offset :: nat
  man_length :: nat
  dict_offset :: nat
  dict_length :: nat
  chunk_index_offset :: nat
  chunk_index_length :: nat
  data_offset :: nat

text \<open>A chunk descriptor (\<^verbatim>\<open>hash\<close>, \<^verbatim>\<open>length\<close>) and a manifest record (\<^verbatim>\<open>filename\<close>,
  \<^verbatim>\<open>chunk_metadata\<close> with \<^verbatim>\<open>chunk_metadata_len\<close> entries), for a digest type \<open>'h\<close>.\<close>

record 'h FFISSAChunkMeta =
  hash :: 'h
  meta_length :: nat

record 'h FFIFileManifestParent =
  filename :: string
  chunk_metadata :: "'h FFISSAChunkMeta list"

text \<open>\<^verbatim>\<open>FFIChunkLocation\<close>: \<^verbatim>\<open>offset\<close> and \<^verbatim>\<open>length\<close> of the compressed bytes.\<close>

record FFIChunkLocation =
  offset :: nat
  loc_length :: nat

text \<open>
  The functions of the library.  A result other than \<^verbatim>\<open>StatusOk\<close> is \<open>None\<close>; with
  \<^verbatim>\<open>StatusOk\<close> the out-parameter holds the value (the specification's contract:
  \<open>decode_manifest(bytes, length) -> list | error\<close>, \<open>prepare_chunk_index -> handle |
  error\<close>, \<open>lookup_chunk_location -> (offset, length) | not_found\<close>, \<open>decompress -> ok |
  error\<close>).  \<open>decompress_chunk_c comp dict n\<close> gives the contents of the output buffer
  of \<open>n\<close> bytes.  \<open>sizeof_FileHeader\<close> and \<open>header_of_bytes\<close> stand for the layout of
  \<^verbatim>\<open>FileHeader\<close>, \<open>MAGIC_NUMBER\<close> for the constant of that name.
\<close>

record ('x64, 'x128) sprite_shrink =
  sizeof_FileHeader :: nat
  header_of_bytes :: "byte list \<Rightarrow> FileHeader"
  MAGIC_NUMBER :: "byte list"
  parse_file_metadata_u64 :: "byte list \<Rightarrow> 64 word FFIFileManifestParent list option"
  parse_file_metadata_u128 :: "byte list \<Rightarrow> 128 word FFIFileManifestParent list option"
  prepare_chunk_index_u64 :: "byte list \<Rightarrow> 'x64 option"
  prepare_chunk_index_u128 :: "byte list \<Rightarrow> 'x128 option"
  lookup_chunk_location_u64 :: "'x64 \<Rightarrow> 64 word \<Rightarrow> FFIChunkLocation option"
  lookup_chunk_location_u128 :: "'x128 \<Rightarrow> 128 word \<Rightarrow> FFIChunkLocation option"
  decompress_chunk_c :: "byte list \<Rightarrow> byte list \<Rightarrow> nat \<Rightarrow> byte list option"

subsection \<open>Archive entries and handler tables (archive.h)\<close>

text \<open>
  Modelled from the spec: the declarations of \<^verbatim>\<open>ArchiveEntry\<close> and of the entry kinds
  are missing from the sources; archive.c and archive_ssmc.c use the fields \<^verbatim>\<open>path\<close>,
  \<^verbatim>\<open>type\<close> and \<^verbatim>\<open>index\<close> and the kind \<^verbatim>\<open>ARCHIVE_ENTRY_FILE\<close>.  The specification's
  Archive Entry is a path, an entry kind (file or directory) and the original index
  within the manifest.  The path is a \<^verbatim>\<open>char *\<close> that the lister zeroes before it
  fills it, hence an option.
\<close>

datatype ArchiveEntryType = ARCHIVE_ENTRY_FILE | ARCHIVE_ENTRY_DIRECTORY

record ArchiveEntry =
  path :: "string option"
  entry_type :: ArchiveEntryType
  index :: nat

text \<open>The function table of a handler.  \<^verbatim>\<open>list_contents\<close> and \<^verbatim>\<open>extract_file\<close> are
  tested against NULL by the facade, so they are options; \<^verbatim>\<open>list_contents\<close> returns the
  entry array and the value it stored in \<^verbatim>\<open>*count\<close>.  (archive.h declares the result
  of \<^verbatim>\<open>list_contents\<close> as \<^verbatim>\<open>char **\<close>; archive.c reads it as an array of
  \<^verbatim>\<open>ArchiveEntry\<close> and archive_ssmc.c returns one, which is what is modelled.)  The
  two name functions of the table play no part in the properties below.\<close>

record ArchiveVTable =
  is_supported :: "string \<Rightarrow> bool"
  list_contents :: "(string \<Rightarrow> world \<Rightarrow> (ArchiveEntry list option \<times> int) \<times> world) option"
  extract_file ::
    "(string \<Rightarrow> string option \<Rightarrow> int \<Rightarrow> string \<Rightarrow> world \<Rightarrow> string option \<times> world) option"

subsection \<open>The SSMC handler: loading (archive_ssmc.c)\<close>

text \<open>Lines 29-49 and 539-548, the same in the lister and the extractor: open the
  archive, read \<^verbatim>\<open>sizeof(FileHeader)\<close> bytes into the header, compare the magic number
  over \<^verbatim>\<open>sizeof(header.magic_num)\<close> bytes.\<close>

definition read_header ::
  "('x64, 'x128) sprite_shrink \<Rightarrow> string \<Rightarrow> world \<Rightarrow> (FILE \<times> FileHeader) option \<times> world" where
  "read_header ss archive_path w =
     (case fopen_rb archive_path w of
        (None, w1) \<Rightarrow> (None, w1)
      | (Some archive_file, w1) \<Rightarrow>
          (case fread (sizeof_FileHeader ss) archive_file w1 of
             (None, w2) \<Rightarrow> (None, w2)
           | (Some bytes, w2) \<Rightarrow>
               (let header = header_of_bytes ss bytes in
                if \<not> memcmp_eq (magic_num header) (MAGIC_NUMBER ss) (length (magic_num header))
                then (None, w2)
                else (Some (archive_file, header), w2))))"

text \<open>Lines 51-70, 550-561, 563-575 and 577-589: \<^verbatim>\<open>malloc(len)\<close>, \<^verbatim>\<open>fseek\<close> to
  \<open>off\<close>, \<^verbatim>\<open>fread\<close> of \<open>len\<close> bytes.\<close>

definition read_section :: "FILE \<Rightarrow> nat \<Rightarrow> nat \<Rightarrow> world \<Rightarrow> byte list option \<times> world" where
  "read_section archive_file off len w =
     (case malloc len w of
        (False, w1) \<Rightarrow> (None, w1)
      | (True, w1) \<Rightarrow>
          (case fseek_set archive_file off w1 of
             (None, w2) \<Rightarrow> (None, w2)
           | (Some f, w2) \<Rightarrow> fread len f w2))"

subsection \<open>The SSMC lister (archive_ssmc.c, lines 17-166)\<close>

text \<open>The loop of lines 113-136 over the file names of the manifest, from position
  \<open>i\<close>: \<^verbatim>\<open>strdup\<close> of the name, kind file, index \<open>i\<close>.  A failed \<^verbatim>\<open>strdup\<close> leaves
  the loop for \<^verbatim>\<open>cleanup\<close> with \<^verbatim>\<open>*count == 0\<close>, where the array is freed:
  \<open>None\<close>.\<close>

fun fill_item_list :: "string list \<Rightarrow> nat \<Rightarrow> world \<Rightarrow> ArchiveEntry list option \<times> world" where
  "fill_item_list [] i w = (Some [], w)"
| "fill_item_list (source_filename # rest) i w =
     (case strdup source_filename w of
        (False, w1) \<Rightarrow> (None, w1)
      | (True, w1) \<Rightarrow>
          (case fill_item_list rest (Suc i) w1 of
             (None, w2) \<Rightarrow> (None, w2)
           | (Some items, w2) \<Rightarrow>
               (Some (\<lparr>path = Some source_filename, entry_type = ARCHIVE_ENTRY_FILE,
                        index = i\<rparr> # items), w2)))"

text \<open>\<^verbatim>\<open>sizeof(ArchiveEntry)\<close>, for a pointer, an enum and an index on a 64-bit target.
  Only the size asked of \<^verbatim>\<open>malloc\<close> depends on it, and the outcome of an allocation
  does not depend on its size in this model.\<close>

definition sizeof_ArchiveEntry :: nat where
  "sizeof_ArchiveEntry = 24"

text \<open>The result is the returned array (\<open>None\<close> for NULL) and the final value of
  \<^verbatim>\<open>*count\<close>, which line 18 sets to 0 before anything else.\<close>

definition ssmc_list_contents ::
  "('x64, 'x128) sprite_shrink \<Rightarrow> string \<Rightarrow> world \<Rightarrow> (ArchiveEntry list option \<times> int) \<times> world" where
  "ssmc_list_contents ss archive_path w =
     (case read_header ss archive_path w of
        (None, w1) \<Rightarrow> ((None, 0), w1)
      | (Some (archive_file, header), w1) \<Rightarrow>
          (case read_section archive_file (man_offset header) (man_length header) w1 of
             (None, w2) \<Rightarrow> ((None, 0), w2)
           | (Some manifest_buffer, w2) \<Rightarrow>
               (case (if hash_type header = 1
                      then map_option (map filename) (parse_file_metadata_u64 ss manifest_buffer)
                      else if hash_type header = 2
                      then map_option (map filename) (parse_file_metadata_u128 ss manifest_buffer)
                      else None) of
                  None \<Rightarrow> ((None, 0), w2)
                | Some names \<Rightarrow>
                    (let manifest_len = length names in
                     if manifest_len = 0 then ((None, 0), w2)
                     else
                       (case malloc (manifest_len * sizeof_ArchiveEntry) w2 of
                          (False, w3) \<Rightarrow> ((None, 0), w3)
                        | (True, w3) \<Rightarrow>
                            (case fill_item_list names 0 w3 of
                               (None, w4) \<Rightarrow> ((None, 0), w4)
                             | (Some item_list, w4) \<Rightarrow>
                                 (let count = cast_int manifest_len in
                                  if count = 0 then ((None, 0), w4)
                                  else ((Some item_list, count), w4))))))))"

subsection \<open>The SSMC extractor (archive_ssmc.c, lines 186-626)\<close>

text \<open>Lines 226-234 (and 397-404): the scan for the first record whose file name is
  \<^verbatim>\<open>strcmp\<close>-equal to the requested one; the result is the position of the record.\<close>

fun name_scan :: "('h, 'z) FFIFileManifestParent_scheme list \<Rightarrow> string \<Rightarrow> nat option" where
  "name_scan [] file_inside_archive = None"
| "name_scan (m # ms) file_inside_archive =
     (if filename m = file_inside_archive then Some 0
      else map_option Suc (name_scan ms file_inside_archive))"

text \<open>Lines 219-237 (and 390-407): the position of \<^verbatim>\<open>target_manifest\<close> in the manifest,
  \<open>None\<close> when it stays NULL.  \<^verbatim>\<open>file_index\<close> is an \<^verbatim>\<open>int\<close>; once it is known to be
  non-negative its comparison with the unsigned \<^verbatim>\<open>manifests_len\<close> is exact.\<close>

definition resolve_target ::
  "('h, 'z) FFIFileManifestParent_scheme list \<Rightarrow> string option \<Rightarrow> int \<Rightarrow> nat option" where
  "resolve_target manifests file_inside_archive file_index =
     (if 0 \<le> file_index \<and> nat file_index < length manifests then Some (nat file_index)
      else (case file_inside_archive of
              Some name \<Rightarrow> name_scan manifests name
            | None \<Rightarrow> None))"

text \<open>Line 243: \<^verbatim>\<open>sprintf(output_path, "%s/%s", target_dir, filename)\<close>.\<close>

definition output_path_of :: "string \<Rightarrow> string \<Rightarrow> string" where
  "output_path_of target_dir name = target_dir @ ''/'' @ name"

text \<open>The chunk loop of lines 248-319 (and 418-489) over the chunk descriptors that
  remain; \<open>False\<close> when an iteration jumps to \<^verbatim>\<open>cleanup\<close>, \<open>True\<close> when the loop ends
  (\<^verbatim>\<open>success = true\<close>).  \<open>lookup\<close> is the chunk index lookup on the prepared handle.\<close>

fun chunk_loop ::
  "('h \<Rightarrow> FFIChunkLocation option) \<Rightarrow> (byte list \<Rightarrow> byte list \<Rightarrow> nat \<Rightarrow> byte list option) \<Rightarrow>
   FILE \<Rightarrow> FileHeader \<Rightarrow> byte list \<Rightarrow> string \<Rightarrow> 'h FFISSAChunkMeta list \<Rightarrow> world \<Rightarrow>
   bool \<times> world" where
  "chunk_loop lookup decompress archive_file header dictionary_buf out_file [] w = (True, w)"
| "chunk_loop lookup decompress archive_file header dictionary_buf out_file (chunk_meta # rest) w =
     (case lookup (hash chunk_meta) of
        None \<Rightarrow> (False, w)
      | Some location \<Rightarrow>
          (case malloc (loc_length location) w of
             (False, w1) \<Rightarrow> (False, w1)
           | (True, w1) \<Rightarrow>
               (case malloc (meta_length chunk_meta) w1 of
                  (False, w2) \<Rightarrow> (False, w2)
                | (True, w2) \<Rightarrow>
                    (case fseek_set archive_file (data_offset header + offset location) w2 of
                       (None, w3) \<Rightarrow> (False, w3)
                     | (Some f, w3) \<Rightarrow>
                         (case fread (loc_length location) f w3 of
                            (None, w4) \<Rightarrow> (False, w4)
                          | (Some comp_buf, w4) \<Rightarrow>
                              (case decompress comp_buf dictionary_buf (meta_length chunk_meta) of
                                 None \<Rightarrow> (False, w4)
                               | Some decomp_buf \<Rightarrow>
                                   (case fwrite (take (meta_length chunk_meta) decomp_buf)
                                           out_file w4 of
                                      (False, w5) \<Rightarrow> (False, w5)
                                    | (True, w5) \<Rightarrow>
                                        chunk_loop lookup decompress archive_file header
                                          dictionary_buf out_file rest w5)))))))"

text \<open>
  \<^verbatim>\<open>extract_u64\<close> (lines 186-337) and \<^verbatim>\<open>extract_u128\<close> (lines 357-508) are the same
  text up to the names of the three width-specific library functions, so one body is
  written here and instantiated twice.  In \<^verbatim>\<open>cleanup\<close> a failed call calls
  \<^verbatim>\<open>remove\<close> on the output path whenever \<^verbatim>\<open>output_path\<close> was allocated, also when
  \<^verbatim>\<open>fopen\<close> failed, and does not look at the result.
\<close>

definition extract_body ::
  "(byte list \<Rightarrow> 'h FFIFileManifestParent list option) \<Rightarrow> (byte list \<Rightarrow> 'x option) \<Rightarrow>
   ('x \<Rightarrow> 'h \<Rightarrow> FFIChunkLocation option) \<Rightarrow> (byte list \<Rightarrow> byte list \<Rightarrow> nat \<Rightarrow> byte list option) \<Rightarrow>
   FILE \<Rightarrow> FileHeader \<Rightarrow> byte list \<Rightarrow> byte list \<Rightarrow> byte list \<Rightarrow> string option \<Rightarrow> int \<Rightarrow>
   string \<Rightarrow> world \<Rightarrow> string option \<times> world" where
  "extract_body parse_file_metadata prepare_chunk_index lookup_chunk_location decompress
     archive_file header manifest_buf chunk_index_buf dictionary_buf
     file_inside_archive file_index target_dir w =
     (case parse_file_metadata manifest_buf of
        None \<Rightarrow> (None, w)
      | Some manifests \<Rightarrow>
          (case prepare_chunk_index chunk_index_buf of
             None \<Rightarrow> (None, w)
           | Some chunk_index_handle \<Rightarrow>
               (case resolve_target manifests file_inside_archive file_index of
                  None \<Rightarrow> (None, w)
                | Some t \<Rightarrow>
                    (let target_manifest = manifests ! t in
                     case malloc (length target_dir + 1 + length (filename target_manifest) + 1) w of
                       (False, w1) \<Rightarrow> (None, w1)
                     | (True, w1) \<Rightarrow>
                         (let output_path = output_path_of target_dir (filename target_manifest) in
                          case fopen_wb output_path w1 of
                            (False, w2) \<Rightarrow> (None, snd (remove_file output_path w2))
                          | (True, w2) \<Rightarrow>
                              (case chunk_loop (lookup_chunk_location chunk_index_handle)
                                      decompress archive_file header dictionary_buf output_path
                                      (chunk_metadata target_manifest) w2 of
                                 (False, w3) \<Rightarrow> (None, snd (remove_file output_path w3))
                               | (True, w3) \<Rightarrow> (Some output_path, w3)))))))"

definition extract_u64 ::
  "('x64, 'x128) sprite_shrink \<Rightarrow> FILE \<Rightarrow> FileHeader \<Rightarrow> byte list \<Rightarrow> byte list \<Rightarrow> byte list \<Rightarrow>
   string option \<Rightarrow> int \<Rightarrow> string \<Rightarrow> world \<Rightarrow> string option \<times> world" where
  "extract_u64 ss =
     extract_body (parse_file_metadata_u64 ss) (prepare_chunk_index_u64 ss)
       (lookup_chunk_location_u64 ss) (decompress_chunk_c ss)"

definition extract_u128 ::
  "('x64, 'x128) sprite_shrink \<Rightarrow> FILE \<Rightarrow> FileHeader \<Rightarrow> byte list \<Rightarrow> byte list \<Rightarrow> byte list \<Rightarrow>
   string option \<Rightarrow> int \<Rightarrow> string \<Rightarrow> world \<Rightarrow> string option \<times> world" where
  "extract_u128 ss =
     extract_body (parse_file_metadata_u128 ss) (prepare_chunk_index_u128 ss)
       (lookup_chunk_location_u128 ss) (decompress_chunk_c ss)"

text \<open>\<^verbatim>\<open>ssmc_extract_file\<close> (lines 527-626): the returned path (\<open>None\<close> for NULL) and
  the world after the call.\<close>

definition ssmc_extract_file ::
  "('x64, 'x128) sprite_shrink \<Rightarrow> string \<Rightarrow> string option \<Rightarrow> int \<Rightarrow> string \<Rightarrow> world \<Rightarrow>
   string option \<times> world" where
  "ssmc_extract_file ss archive_path file_inside_archive file_index target_dir w =
     (case read_header ss archive_path w of
        (None, w1) \<Rightarrow> (None, w1)
      | (Some (archive_file, header), w1) \<Rightarrow>
          (case read_section archive_file (man_offset header) (man_length header) w1 of
             (None, w2) \<Rightarrow> (None, w2)
           | (Some manifest_buf, w2) \<Rightarrow>
               (case read_section archive_file (chunk_index_offset header)
                       (chunk_index_length header) w2 of
                  (None, w3) \<Rightarrow> (None, w3)
                | (Some chunk_index_buf, w3) \<Rightarrow>
                    (case read_section archive_file (dict_offset header) (dict_length header) w3 of
                       (None, w4) \<Rightarrow> (None, w4)
                     | (Some dictionary_buf, w4) \<Rightarrow>
                         if hash_type header = 1
                         then extract_u64 ss archive_file header manifest_buf chunk_index_buf
                                dictionary_buf file_inside_archive file_index target_dir w4
                         else if hash_type header = 2
                         then extract_u128 ss archive_file header manifest_buf chunk_index_buf
                                dictionary_buf file_inside_archive file_index target_dir w4
                         else (None, w4)))))"

subsection \<open>The handler registry (archive.c, lines 8-50 and 167-172)\<close>

text \<open>
  A handler is known by the address of its table: a \<open>nat\<close>, with 0 for NULL.  The
  registry is the static array \<^verbatim>\<open>archive_handlers\<close> of \<^verbatim>\<open>MAX_HANDLERS\<close> pointers and the
  counter \<^verbatim>\<open>handler_count\<close>; both start zeroed.
\<close>

definition NULL :: nat where
  "NULL = 0"

definition MAX_HANDLERS :: int where
  "MAX_HANDLERS = 50"

definition MAX_ARCHIVE_DISPLAY_ITEMS :: nat where
  "MAX_ARCHIVE_DISPLAY_ITEMS = 255"

record registry =
  archive_handlers :: "nat list"
  handler_count :: int

definition initial_registry :: registry where
  "initial_registry = \<lparr>archive_handlers = replicate 50 NULL, handler_count = 0\<rparr>"

text \<open>Lines 24-28: is \<open>handler\<close> among \<^verbatim>\<open>archive_handlers[i .. handler_count)\<close>?\<close>

function already_registered :: "registry \<Rightarrow> nat \<Rightarrow> int \<Rightarrow> bool" where
  "already_registered r handler i =
     (if i < handler_count r
      then (if archive_handlers r ! nat i = handler then True
            else already_registered r handler (i + 1))
      else False)"
  by pat_completeness auto
termination
  by (relation "measure (\<lambda>(r, handler, i). nat (handler_count r - i))") auto

declare already_registered.simps [simp del]

definition register_archive_handler :: "nat \<Rightarrow> registry \<Rightarrow> registry" where
  "register_archive_handler handler r =
     (if handler = NULL then r
      else if handler_count r \<ge> MAX_HANDLERS then r
      else if already_registered r handler 0 then r
      else r\<lparr>archive_handlers := (archive_handlers r)[nat (handler_count r) := handler],
             handler_count := handler_count r + 1\<rparr>)"

text \<open>Lines 43-47: the first handler at a position from \<open>i\<close> on whose
  \<^verbatim>\<open>is_supported\<close> accepts the file name.  \<open>vt\<close> reads the table at an address.\<close>

function handler_scan :: "(nat \<Rightarrow> ArchiveVTable) \<Rightarrow> registry \<Rightarrow> string \<Rightarrow> int \<Rightarrow> nat" where
  "handler_scan vt r fname i =
     (if i < handler_count r
      then (if is_supported (vt (archive_handlers r ! nat i)) fname
            then archive_handlers r ! nat i
            else handler_scan vt r fname (i + 1))
      else NULL)"
  by pat_completeness auto
termination
  by (relation "measure (\<lambda>(vt, r, fname, i). nat (handler_count r - i))") auto

declare handler_scan.simps [simp del]

definition get_handler_for_file ::
  "(nat \<Rightarrow> ArchiveVTable) \<Rightarrow> registry \<Rightarrow> string option \<Rightarrow> nat" where
  "get_handler_for_file vt r fname =
     (case fname of
        None \<Rightarrow> NULL
      | Some name \<Rightarrow> handler_scan vt r name 0)"

text \<open>Lines 167-172: every registered slot is set to NULL, the counter to 0.\<close>

definition archive_system_shutdown :: "registry \<Rightarrow> registry" where
  "archive_system_shutdown r =
     \<lparr>archive_handlers =
        replicate (min (nat (handler_count r)) (length (archive_handlers r))) NULL
        @ drop (nat (handler_count r)) (archive_handlers r),
      handler_count = 0\<rparr>"

text \<open>The handlers in registration order: the first \<^verbatim>\<open>handler_count\<close> slots.\<close>

definition registered :: "registry \<Rightarrow> nat list" where
  "registered r = take (nat (handler_count r)) (archive_handlers r)"

subsection \<open>The listing facade (archive.c, lines 72-152)\<close>

text \<open>
  The loop of lines 99-117 reads \<^verbatim>\<open>entries[i]\<close> for \<open>i\<close> below the count the handler
  reported and calls \<^verbatim>\<open>strchr\<close> on the path of every entry.  Reading past the array
  the handler returned, or a NULL path, has no defined behaviour in C: \<open>Crash\<close>.
  The loop of \<^verbatim>\<open>cleanup\<close> (lines 133-141) reads every entry below the reported
  count on every path through the function, so a count beyond the array is a
  \<open>Crash\<close> whatever the first loop did.
\<close>

datatype 'a outcome = Crash | Returns 'a

text \<open>\<open>working\<close> holds \<^verbatim>\<open>working_list[0 .. valid_item_count)\<close>.  The result is
  \<open>None\<close> when a \<^verbatim>\<open>strdup\<close> fails (the jump to \<^verbatim>\<open>cleanup\<close> of line 113).\<close>

function list_loop ::
  "ArchiveEntry list \<Rightarrow> int \<Rightarrow> int \<Rightarrow> string list \<Rightarrow> world \<Rightarrow> (string list option \<times> world) outcome" where
  "list_loop entries handler_raw_count i working w =
     (if i < handler_raw_count
      then (if length working \<ge> MAX_ARCHIVE_DISPLAY_ITEMS then Returns (Some working, w)
            else if i < 0 \<or> nat i \<ge> length entries then Crash
            else (case path (entries ! nat i) of
                    None \<Rightarrow> Crash
                  | Some p \<Rightarrow>
                      (let is_file = (entry_type (entries ! nat i) = ARCHIVE_ENTRY_FILE);
                           is_root = strchr_null p (CHR ''/'')
                       in if is_file \<and> is_root
                          then (case strdup p w of
                                  (False, w1) \<Rightarrow> Returns (None, w1)
                                | (True, w1) \<Rightarrow>
                                    list_loop entries handler_raw_count (i + 1) (working @ [p]) w1)
                          else list_loop entries handler_raw_count (i + 1) working w)))
      else Returns (Some working, w))"
  by pat_completeness auto
termination
  by (relation "measure (\<lambda>(entries, handler_raw_count, i, working, w). nat (handler_raw_count - i))")
     auto

declare list_loop.simps [simp del]

text \<open>
  \<open>count0\<close> is the value of \<^verbatim>\<open>*count\<close> before the call: line 118 is the only
  assignment to it, and a failure before that line leaves it as it was.  The result
  is the returned list (\<open>None\<close> for NULL) and the final value of \<^verbatim>\<open>*count\<close>.
  The factor 8 in the two allocations is \<^verbatim>\<open>sizeof(char *)\<close>.
\<close>

definition archive_list_contents ::
  "(nat \<Rightarrow> ArchiveVTable) \<Rightarrow> registry \<Rightarrow> string option \<Rightarrow> int \<Rightarrow> world \<Rightarrow>
   ((string list option \<times> int) \<times> world) outcome" where
  "archive_list_contents vt r archive_path count0 w =
     (let handler = get_handler_for_file vt r archive_path in
      if handler = NULL then Returns ((None, count0), w)
      else
        (case (archive_path, list_contents (vt handler)) of
           (Some archive_name, Some lister) \<Rightarrow>
             (case lister archive_name w of
                ((None, handler_raw_count), w1) \<Rightarrow> Returns ((None, count0), w1)
              | ((Some entries, handler_raw_count), w1) \<Rightarrow>
                  if handler_raw_count > int (length entries) then Crash
                  else
                  (case malloc (MAX_ARCHIVE_DISPLAY_ITEMS * 8) w1 of
                     (False, w2) \<Rightarrow> Returns ((None, count0), w2)
                   | (True, w2) \<Rightarrow>
                       (case list_loop entries handler_raw_count 0 [] w2 of
                          Crash \<Rightarrow> Crash
                        | Returns (None, w3) \<Rightarrow> Returns ((None, count0), w3)
                        | Returns (Some working_list, w3) \<Rightarrow>
                            (let valid_item_count = int (length working_list) in
                             if valid_item_count > 0
                             then (case realloc (length working_list * 8) w3 of
                                     (False, w4) \<Rightarrow> Returns ((None, valid_item_count), w4)
                                   | (True, w4) \<Rightarrow>
                                       Returns ((Some working_list, valid_item_count), w4))
                             else Returns ((None, valid_item_count), w3)))))
         | _ \<Rightarrow> Returns ((None, count0), w)))"

subsection \<open>Notions used to state the properties\<close>

text \<open>An entry the listing lets through: its kind is file and its path has no
  separator (a NULL path is never eligible).\<close>

definition eligible :: "ArchiveEntry \<Rightarrow> bool" where
  "eligible e = (entry_type e = ARCHIVE_ENTRY_FILE \<and>
                 (case path e of None \<Rightarrow> False | Some p \<Rightarrow> CHR ''/'' \<notin> set p))"

text \<open>The specification's projection of a raw entry list: the paths of the entries
  that are files at root level, in the order of the list, cut after the first 255.\<close>

definition spec_listing_projection :: "ArchiveEntry list \<Rightarrow> string list" where
  "spec_listing_projection es =
     map (\<lambda>e. the (path e)) (take MAX_ARCHIVE_DISPLAY_ITEMS (filter eligible es))"

text \<open>The entries the facade is told about: the first \<^verbatim>\<open>handler_raw_count\<close> entries of
  the array the handler returned.\<close>

definition reported :: "ArchiveEntry list \<Rightarrow> int \<Rightarrow> ArchiveEntry list" where
  "reported entries handler_raw_count = take (nat handler_raw_count) entries"

text \<open>The paths of all eligible entries, uncut.\<close>

definition eligible_paths :: "ArchiveEntry list \<Rightarrow> string list" where
  "eligible_paths es = map (\<lambda>e. the (path e)) (filter eligible es)"

text \<open>What holds of the registry in every state reached from the zeroed one by
  \<^verbatim>\<open>register_archive_handler\<close> and \<^verbatim>\<open>archive_system_shutdown\<close>: the array has its 50
  slots, the counter lies between 0 and 50, and the registered handlers are distinct
  and not NULL.\<close>

definition reg_inv :: "registry \<Rightarrow> bool" where
  "reg_inv r = (length (archive_handlers r) = 50 \<and> 0 \<le> handler_count r
                \<and> handler_count r \<le> MAX_HANDLERS
                \<and> distinct (registered r) \<and> NULL \<notin> set (registered r))"

text \<open>The \<open>len\<close> bytes at offset \<open>off\<close> of the archive bytes.\<close>

definition section_bytes :: "byte list \<Rightarrow> nat \<Rightarrow> nat \<Rightarrow> byte list" where
  "section_bytes bs off len = take len (drop off bs)"

text \<open>The header a call reads from an archive: the first \<^verbatim>\<open>sizeof(FileHeader)\<close> bytes.\<close>

definition header_of_archive :: "('x64, 'x128) sprite_shrink \<Rightarrow> byte list \<Rightarrow> FileHeader" where
  "header_of_archive ss bs = header_of_bytes ss (take (sizeof_FileHeader ss) bs)"

text \<open>The magic-number bytes of the header are those of \<^verbatim>\<open>MAGIC_NUMBER\<close>.\<close>

definition magic_ok :: "('x64, 'x128) sprite_shrink \<Rightarrow> FileHeader \<Rightarrow> bool" where
  "magic_ok ss header =
     (magic_num header = take (length (magic_num header)) (MAGIC_NUMBER ss))"

text \<open>The three sections of an archive, at the offsets and lengths its header gives.\<close>

definition manifest_section :: "('x64, 'x128) sprite_shrink \<Rightarrow> byte list \<Rightarrow> byte list" where
  "manifest_section ss bs =
     section_bytes bs (man_offset (header_of_archive ss bs)) (man_length (header_of_archive ss bs))"

definition chunk_index_section :: "('x64, 'x128) sprite_shrink \<Rightarrow> byte list \<Rightarrow> byte list" where
  "chunk_index_section ss bs =
     section_bytes bs (chunk_index_offset (header_of_archive ss bs))
       (chunk_index_length (header_of_archive ss bs))"

definition dictionary_section :: "('x64, 'x128) sprite_shrink \<Rightarrow> byte list \<Rightarrow> byte list" where
  "dictionary_section ss bs =
     section_bytes bs (dict_offset (header_of_archive ss bs)) (dict_length (header_of_archive ss bs))"

text \<open>The entry array of a manifest with the given file names: entry \<open>k\<close> has the
  \<open>k\<close>-th name, kind file and index \<open>k\<close>.\<close>

definition entries_of :: "string list \<Rightarrow> ArchiveEntry list" where
  "entries_of names =
     map (\<lambda>(k, n). \<lparr>path = Some n, entry_type = ARCHIVE_ENTRY_FILE, index = k\<rparr>)
       (enumerate 0 names)"

text \<open>What one chunk descriptor contributes to the output when all goes well: the
  chunk is located by its digest, its compressed bytes are read at \<^verbatim>\<open>data_offset\<close> plus
  the location's offset, and the first \<^verbatim>\<open>length\<close> bytes of the decompression buffer are
  written.\<close>

definition chunk_payload ::
  "('h \<Rightarrow> FFIChunkLocation option) \<Rightarrow> (byte list \<Rightarrow> byte list \<Rightarrow> nat \<Rightarrow> byte list option) \<Rightarrow>
   byte list \<Rightarrow> FileHeader \<Rightarrow> byte list \<Rightarrow> 'h FFISSAChunkMeta \<Rightarrow> byte list option" where
  "chunk_payload lookup decompress bs h dict c =
     (case lookup (hash c) of
        None \<Rightarrow> None
      | Some loc \<Rightarrow>
          if loc_length loc = 0 \<or> data_offset h + offset loc + loc_length loc \<le> length bs
          then map_option (take (meta_length c))
                 (decompress (section_bytes bs (data_offset h + offset loc) (loc_length loc))
                    dict (meta_length c))
          else None)"

text \<open>The world after \<open>n\<close> further library calls have consulted the failure schedule:
  its first \<open>n\<close> entries are used up.\<close>

definition after_calls :: "nat \<Rightarrow> world \<Rightarrow> world" where
  "after_calls n w = w\<lparr>faults := drop n (faults w)\<rparr>"



subsection \<open>A concrete archive\<close>

text \<open>
  A small instance of the library and of the file system, used to evaluate the model:
  a two-byte header (magic byte, digest-width selector), one-byte manifest, dictionary
  and chunk index sections, and five bytes of chunk data.  The manifest byte 1 decodes
  to two records, \<open>a.txt\<close> with two chunks of decompressed lengths 4 and 6 and the
  empty \<open>b.txt\<close>; the manifest byte 2 decodes to the record \<open>a.txt\<close> alone, the
  manifest byte 0 to no record.  Only the chunk index byte 7 can be prepared.
  Decompression doubles the compressed bytes.
\<close>

definition demo_manifest :: "64 word FFIFileManifestParent list" where
  "demo_manifest =
     [\<lparr>filename = ''a.txt'',
       chunk_metadata = [\<lparr>hash = 10, meta_length = 4\<rparr>, \<lparr>hash = 11, meta_length = 6\<rparr>]\<rparr>,
      \<lparr>filename = ''b.txt'', chunk_metadata = []\<rparr>]"

definition demo_ss :: "(unit, unit) sprite_shrink" where
  "demo_ss =
     \<lparr>sizeof_FileHeader = 2,
      header_of_bytes = (\<lambda>bs. \<lparr>magic_num = take 1 bs, hash_type = unat (bs ! 1),
         man_offset = 2, man_length = 1, dict_offset = 3, dict_length = 1,
         chunk_index_offset = 4, chunk_index_length = 1, data_offset = 5\<rparr>),
      MAGIC_NUMBER = [83],
      parse_file_metadata_u64 =
        (\<lambda>bs. if bs = [1] then Some demo_manifest
              else if bs = [2] then Some (take 1 demo_manifest)
              else if bs = [0] then Some [] else None),
      parse_file_metadata_u128 = (\<lambda>bs. if bs = [0] then Some [] else None),
      prepare_chunk_index_u64 = (\<lambda>bs. if bs = [7] then Some () else None),
      prepare_chunk_index_u128 = (\<lambda>bs. Some ()),
      lookup_chunk_location_u64 =
        (\<lambda>_ h. if h = 10 then Some \<lparr>offset = 0, loc_length = 2\<rparr>
               else if h = 11 then Some \<lparr>offset = 2, loc_length = 3\<rparr> else None),
      lookup_chunk_location_u128 = (\<lambda>_ h. None),
      decompress_chunk_c =
        (\<lambda>comp dict n. if n = 2 * length comp then Some (comp @ comp) else None)\<rparr>"

text \<open>The disk holds the archive \<open>x.ssmc\<close> with the given bytes and, when \<open>old\<close> is
  given, a file \<open>out/a.txt\<close> with those contents; no \<^verbatim>\<open>remove\<close> is made to fail.\<close>

definition demo_world :: "byte list \<Rightarrow> byte list option \<Rightarrow> bool list \<Rightarrow> world" where
  "demo_world archive old schedule =
     \<lparr>files = (\<lambda>p. if p = ''x.ssmc'' then Some archive
                   else if p = ''out/a.txt'' then old else None),
      faults = schedule, remove_faults = []\<rparr>"

definition demo_archive :: "byte list" where
  "demo_archive = [83, 1, 1, 9, 7, 1, 2, 3, 4, 5]"

text \<open>Handler tables for evaluation: the one at address 5 accepts \<open>.ssmc\<close> and lists
  304 entries (a root file, a nested file, a directory, a root file and 300 more root
  files); every other one accepts \<open>.ssmc\<close> and \<open>.zip\<close> and has no lister.\<close>

definition demo_entries :: "ArchiveEntry list" where
  "demo_entries =
     [\<lparr>path = Some ''a.txt'', entry_type = ARCHIVE_ENTRY_FILE, index = 0\<rparr>,
      \<lparr>path = Some ''dir/b.txt'', entry_type = ARCHIVE_ENTRY_FILE, index = 1\<rparr>,
      \<lparr>path = Some ''sub'', entry_type = ARCHIVE_ENTRY_DIRECTORY, index = 2\<rparr>,
      \<lparr>path = Some ''c.bin'', entry_type = ARCHIVE_ENTRY_FILE, index = 3\<rparr>]
     @ replicate 300 \<lparr>path = Some ''z'', entry_type = ARCHIVE_ENTRY_FILE, index = 4\<rparr>"

definition demo_lister ::
  "string \<Rightarrow> world \<Rightarrow> (ArchiveEntry list option \<times> int) \<times> world" where
  "demo_lister archive_path w = ((Some demo_entries, 304), w)"

definition demo_vt :: "nat \<Rightarrow> ArchiveVTable" where
  "demo_vt a =
     \<lparr>is_supported =
        (\<lambda>n. archive_helper_is_ext_supported n (if a = 5 then [''.ssmc''] else [''.ssmc'', ''.zip''])),
      list_contents = (if a = 5 then Some demo_lister else None), extract_file = None\<rparr>"

text \<open>A manifest of \<open>2^31\<close> records, and the library instance that decodes every
  manifest section to it.\<close>

definition big_manifest :: "64 word FFIFileManifestParent list" where
  "big_manifest = replicate 2147483648 \<lparr>filename = ''f'', chunk_metadata = []\<rparr>"

definition big_ss :: "(unit, unit) sprite_shrink" where
  "big_ss = demo_ss\<lparr>parse_file_metadata_u64 := (\<lambda>bs. Some big_manifest)\<rparr>"

section \<open>Properties\<close>

subsection \<open>The C library calls\<close>

lemma fault_none: "faults w = [] \<Longrightarrow> fault w = (False, w)"
  by (simp add: fault_def)

lemma malloc_ok: "faults w = [] \<Longrightarrow> malloc n w = (True, w)"
  by (simp add: malloc_def fault_none)

lemma strdup_ok: "faults w = [] \<Longrightarrow> strdup s w = (True, w)"
  by (simp add: strdup_def fault_none)

lemma realloc_ok: "faults w = [] \<Longrightarrow> realloc n w = (True, w)"
  by (simp add: realloc_def fault_none)

lemma files_fault [simp]: "files (snd (fault w)) = files w"
  by (simp add: fault_def split: list.splits)

lemma malloc_files: "malloc n w = (b, w') \<Longrightarrow> files w' = files w"
  by (auto simp: malloc_def split: prod.splits list.splits simp: fault_def)

lemma strdup_files: "strdup s w = (b, w') \<Longrightarrow> files w' = files w"
  by (auto simp: strdup_def split: prod.splits list.splits simp: fault_def)

lemma realloc_files: "realloc n w = (b, w') \<Longrightarrow> files w' = files w"
  by (auto simp: realloc_def split: prod.splits list.splits simp: fault_def)

lemma fopen_rb_files: "fopen_rb p w = (r, w') \<Longrightarrow> files w' = files w"
  by (auto simp: fopen_rb_def fault_def split: prod.splits list.splits if_splits option.splits)

lemma fseek_set_files: "fseek_set f off w = (r, w') \<Longrightarrow> files w' = files w"
  by (auto simp: fseek_set_def fault_def split: prod.splits list.splits if_splits)

lemma fread_files: "fread n f w = (r, w') \<Longrightarrow> files w' = files w"
  by (auto simp: fread_def fault_def split: prod.splits list.splits if_splits)

lemma fopen_rb_ok:
  "faults w = [] \<Longrightarrow> files w p = Some bs \<Longrightarrow>
   fopen_rb p w = (Some \<lparr>content = bs, pos = 0\<rparr>, w)"
  by (simp add: fopen_rb_def fault_none)

lemma fseek_set_ok: "faults w = [] \<Longrightarrow> fseek_set f off w = (Some (f\<lparr>pos := off\<rparr>), w)"
  by (simp add: fseek_set_def fault_none)

lemma fread_ok:
  "faults w = [] \<Longrightarrow> pos f + n \<le> length (content f) \<Longrightarrow>
   fread n f w = (Some (take n (drop (pos f) (content f))), w)"
  by (simp add: fread_def fault_none)

lemma fopen_rb_Some:
  "fopen_rb p w = (Some f, w') \<Longrightarrow> \<exists>bs. files w p = Some bs \<and> f = \<lparr>content = bs, pos = 0\<rparr>"
  by (auto simp: fopen_rb_def fault_def split: prod.splits list.splits if_splits option.splits)

lemma fread_Some:
  "fread n f w = (Some buf, w') \<Longrightarrow>
   (n = 0 \<or> pos f + n \<le> length (content f)) \<and> buf = take n (drop (pos f) (content f))"
  by (auto simp: fread_def split: prod.splits if_splits)

lemma fseek_set_Some: "fseek_set f off w = (Some f', w') \<Longrightarrow> f' = f\<lparr>pos := off\<rparr>"
  by (auto simp: fseek_set_def split: prod.splits if_splits)



lemma fopen_wb_ok:
  "faults w = [] \<Longrightarrow> fopen_wb p w = (True, w\<lparr>files := (files w)(p \<mapsto> [])\<rparr>)"
  by (simp add: fopen_wb_def fault_none)

lemma fwrite_ok:
  "faults w = [] \<Longrightarrow> files w p = Some old \<Longrightarrow>
   fwrite bs p w = (True, w\<lparr>files := (files w)(p \<mapsto> old @ bs)\<rparr>)"
  by (simp add: fwrite_def fault_none)



lemma remove_faults_fault [simp]: "remove_faults (snd (fault w)) = remove_faults w"
  by (simp add: fault_def split: list.splits)


lemma fopen_rb_rf: "fopen_rb p w = (r, w') \<Longrightarrow> remove_faults w' = remove_faults w"
  by (auto simp: fopen_rb_def fault_def split: prod.splits list.splits if_splits option.splits)







lemma remove_file_kept: "\<not> remove_succeeds w \<Longrightarrow> files (snd (remove_file p w)) = files w"
  by (auto simp: remove_file_def remove_succeeds_def split: prod.splits list.splits if_splits)

lemma cast_int_eq: "cast_int n = signed_take_bit 31 (int n)"
  by (simp add: cast_int_def signed_of_nat)

lemma cast_int_small: "n < 2147483648 \<Longrightarrow> cast_int n = int n"
  unfolding cast_int_eq by (rule signed_take_bit_int_eq_self) simp_all

lemma cast_int_big: "cast_int 2147483648 = - 2147483648"
  by (simp add: cast_int_def)

subsection \<open>The extension matcher\<close>

lemma strcasecmp_eq_iff: "strcasecmp_eq a b \<longleftrightarrow> map tolower a = map tolower b"
  by (induction a b rule: strcasecmp_eq.induct) auto

lemma strrchr_None: "strrchr s c = None \<longleftrightarrow> c \<notin> set s"
  by (induction s) (auto split: option.splits)

lemma strrchr_Some:
  "strrchr s c = Some i \<longleftrightarrow> i < length s \<and> s ! i = c \<and> c \<notin> set (drop (Suc i) s)"
proof (induction s arbitrary: i)
  case Nil
  then show ?case by simp
next
  case (Cons x xs)
  show ?case
  proof (cases "strrchr xs c")
    case None
    then have "c \<notin> set xs" by (simp add: strrchr_None)
    with None show ?thesis
      by (cases i) (auto simp: nth_Cons')
  next
    case (Some j)
    with Cons.IH [of j] have j: "j < length xs" "xs ! j = c" "c \<notin> set (drop (Suc j) xs)"
      by simp_all
    show ?thesis
    proof (cases i)
      case 0
      with Some j show ?thesis
        by (auto simp: in_set_conv_nth)
    next
      case (Suc k)
      with Some Cons.IH [of k] show ?thesis
        by auto
    qed
  qed
qed

lemma ext_loop_iff: "ext_loop file_ext es \<longleftrightarrow> (\<exists>e \<in> set es. strcasecmp_eq file_ext e)"
  by (induction es) auto

lemma is_ext_supported_iff:
  "archive_helper_is_ext_supported fname extensions \<longleftrightarrow>
     (\<exists>i. strrchr fname (CHR ''.'') = Some i \<and> 0 < i
        \<and> (\<exists>e \<in> set extensions. map tolower (drop i fname) = map tolower e))"
  by (cases "strrchr fname (CHR ''.'')")
     (simp_all add: archive_helper_is_ext_supported_def ext_loop_iff strcasecmp_eq_iff)

text \<open>
  C8, as stated: the extension is the substring after the last dot, and the result is
  true exactly when that substring equals an entry case-insensitively.  The code
  compares the suffix that \<^emph>\<open>starts at\<close> the last dot (dot included), so for the
  file name \<open>game.ssmc\<close> and the SSMC handler's own list \<open>[.ssmc]\<close> the code answers
  true where the stated rule answers false.
\<close>

theorem is_ext_supported_not_suffix_after_dot:
  "archive_helper_is_ext_supported ''game.ssmc'' [''.ssmc'']
   \<and> \<not> spec_is_ext_supported ''game.ssmc'' [''.ssmc'']"
  by code_simp

text \<open>
  C8, amended: \<open>archive_helper_is_ext_supported\<close> is false when the file name has no
  dot or its last dot is the first character, and otherwise it is true exactly when
  the suffix of the file name starting at its last dot (the dot included) equals some
  entry of the extension list after \<^verbatim>\<open>tolower\<close> on both sides.
\<close>

theorem is_ext_supported_from_last_dot:
  "(CHR ''.'' \<notin> set fname \<longrightarrow> \<not> archive_helper_is_ext_supported fname extensions)
   \<and> (strrchr fname (CHR ''.'') = Some 0 \<longrightarrow>
        \<not> archive_helper_is_ext_supported fname extensions)
   \<and> (archive_helper_is_ext_supported fname extensions \<longleftrightarrow>
        (\<exists>i. 0 < i \<and> i < length fname \<and> fname ! i = CHR ''.''
           \<and> CHR ''.'' \<notin> set (drop (Suc i) fname)
           \<and> (\<exists>e \<in> set extensions. map tolower (drop i fname) = map tolower e)))"
proof (intro conjI impI)
  assume "CHR ''.'' \<notin> set fname"
  then have "strrchr fname (CHR ''.'') = None" by (simp add: strrchr_None)
  then show "\<not> archive_helper_is_ext_supported fname extensions"
    by (simp add: archive_helper_is_ext_supported_def)
next
  assume "strrchr fname (CHR ''.'') = Some 0"
  then show "\<not> archive_helper_is_ext_supported fname extensions"
    by (simp add: archive_helper_is_ext_supported_def)
next
  show "archive_helper_is_ext_supported fname extensions \<longleftrightarrow>
        (\<exists>i. 0 < i \<and> i < length fname \<and> fname ! i = CHR ''.''
           \<and> CHR ''.'' \<notin> set (drop (Suc i) fname)
           \<and> (\<exists>e \<in> set extensions. map tolower (drop i fname) = map tolower e))"
    unfolding is_ext_supported_iff strrchr_Some by blast
qed

theorem is_ext_supported_from_last_dot_witness:
  "archive_helper_is_ext_supported ''rom.v2.SsMc'' [''.zip'', ''.ssmc'']
   \<and> \<not> archive_helper_is_ext_supported ''.ssmc'' [''.zip'', ''.ssmc'']
   \<and> \<not> archive_helper_is_ext_supported ''ssmc'' [''.zip'', ''.ssmc'']"
proof -
  have a: "archive_helper_is_ext_supported ''rom.v2.SsMc'' [''.zip'', ''.ssmc'']"
  proof (rule is_ext_supported_from_last_dot [THEN conjunct2, THEN conjunct2, THEN iffD2])
    have "map tolower (drop 6 ''rom.v2.SsMc'') = map tolower ''.ssmc''"
      by code_simp
    then have "\<exists>e \<in> set [''.zip'', ''.ssmc'']. map tolower (drop 6 ''rom.v2.SsMc'') = map tolower e"
      by (intro bexI [of _ "''.ssmc''"]) simp_all
    moreover have "0 < (6::nat) \<and> 6 < length ''rom.v2.SsMc'' \<and> ''rom.v2.SsMc'' ! 6 = CHR ''.''
        \<and> CHR ''.'' \<notin> set (drop (Suc 6) ''rom.v2.SsMc'')"
      by simp
    ultimately show "\<exists>i. 0 < i \<and> i < length ''rom.v2.SsMc'' \<and> ''rom.v2.SsMc'' ! i = CHR ''.''
        \<and> CHR ''.'' \<notin> set (drop (Suc i) ''rom.v2.SsMc'')
        \<and> (\<exists>e \<in> set [''.zip'', ''.ssmc'']. map tolower (drop i ''rom.v2.SsMc'') = map tolower e)"
      by blast
  qed
  have b: "\<not> archive_helper_is_ext_supported ''.ssmc'' [''.zip'', ''.ssmc'']"
    by (rule is_ext_supported_from_last_dot [THEN conjunct2, THEN conjunct1, rule_format]) simp
  have c: "\<not> archive_helper_is_ext_supported ''ssmc'' [''.zip'', ''.ssmc'']"
    by (rule is_ext_supported_from_last_dot [THEN conjunct1, rule_format]) simp
  from a b c show ?thesis by (intro conjI)
qed

subsection \<open>File resolution\<close>

lemma name_scan_Some:
  "name_scan ms n = Some t \<longleftrightarrow>
     t < length ms \<and> filename (ms ! t) = n \<and> (\<forall>j < t. filename (ms ! j) \<noteq> n)"
proof (induction ms arbitrary: t)
  case Nil
  then show ?case by simp
next
  case (Cons m ms)
  show ?case
  proof (cases "filename m = n")
    case True
    then show ?thesis by (cases t) auto
  next
    case False
    show ?thesis
    proof (cases t)
      case 0
      with False show ?thesis by auto
    next
      case (Suc k)
      have "(\<forall>j < Suc k. filename ((m # ms) ! j) \<noteq> n) \<longleftrightarrow> (\<forall>j < k. filename (ms ! j) \<noteq> n)"
        using False by (auto simp: less_Suc_eq_0_disj)
      with False Suc Cons.IH [of k] show ?thesis by auto
    qed
  qed
qed

lemma name_scan_None: "name_scan ms n = None \<longleftrightarrow> n \<notin> filename ` set ms"
  by (induction ms) auto

lemma chunk_loop_ok:
  "faults w = [] \<Longrightarrow> files w out = Some acc \<Longrightarrow>
   \<forall>c \<in> set chunks. chunk_payload lookup decompress (content f) h dict c \<noteq> None \<Longrightarrow>
   chunk_loop lookup decompress f h dict out chunks w =
     (True, w\<lparr>files := (files w)(out \<mapsto>
        acc @ concat (map (\<lambda>c. the (chunk_payload lookup decompress (content f) h dict c)) chunks))\<rparr>)"
proof (induction chunks arbitrary: w acc)
  case Nil
  then have "(files w)(out \<mapsto> acc) = files w" by (auto simp: fun_upd_idem_iff)
  then show ?case by simp
next
  case (Cons c chunks)
  from Cons.prems(3) obtain loc d where loc: "lookup (hash c) = Some loc"
    and rng: "loc_length loc = 0 \<or> data_offset h + offset loc + loc_length loc \<le> length (content f)"
    and d: "decompress (section_bytes (content f) (data_offset h + offset loc) (loc_length loc))
              dict (meta_length c) = Some d"
    and pay: "chunk_payload lookup decompress (content f) h dict c = Some (take (meta_length c) d)"
    by (auto simp: chunk_payload_def split: option.splits if_splits)
  let ?w5 = "w\<lparr>files := (files w)(out \<mapsto> acc @ take (meta_length c) d)\<rparr>"
  have rd: "fread (loc_length loc) (f\<lparr>pos := data_offset h + offset loc\<rparr>) w =
      (Some (section_bytes (content f) (data_offset h + offset loc) (loc_length loc)), w)"
    using Cons.prems(1) rng by (auto simp: fread_def fault_none section_bytes_def)
  have step: "chunk_loop lookup decompress f h dict out (c # chunks) w =
      chunk_loop lookup decompress f h dict out chunks ?w5"
    using Cons.prems(1,2) loc d rd
    by (simp add: malloc_ok fseek_set_ok fwrite_ok)
  have ih: "chunk_loop lookup decompress f h dict out chunks ?w5 =
     (True, ?w5\<lparr>files := (files ?w5)(out \<mapsto>
        (acc @ take (meta_length c) d)
        @ concat (map (\<lambda>c. the (chunk_payload lookup decompress (content f) h dict c)) chunks))\<rparr>)"
    using Cons.prems by (intro Cons.IH) simp_all
  have fin: "?w5\<lparr>files := (files ?w5)(out \<mapsto>
        (acc @ take (meta_length c) d)
        @ concat (map (\<lambda>c. the (chunk_payload lookup decompress (content f) h dict c)) chunks))\<rparr>
      = w\<lparr>files := (files w)(out \<mapsto>
        acc @ concat (map (\<lambda>c. the (chunk_payload lookup decompress (content f) h dict c))
          (c # chunks)))\<rparr>"
    by (simp add: pay)
  show ?case
    by (simp only: step ih fin)
qed

lemma extract_body_ok:
  assumes "faults w = []" "parse man = Some ms" "prepare ci = Some ih"
    "resolve_target ms nm idx = Some t"
    "\<forall>c \<in> set (chunk_metadata (ms ! t)).
       chunk_payload (lookup ih) decompress (content f) h dict c \<noteq> None"
  shows "extract_body parse prepare lookup decompress f h man ci dict nm idx dir w =
     (Some (output_path_of dir (filename (ms ! t))),
      w\<lparr>files := (files w)(output_path_of dir (filename (ms ! t)) \<mapsto>
         concat (map (\<lambda>c. the (chunk_payload (lookup ih) decompress (content f) h dict c))
           (chunk_metadata (ms ! t))))\<rparr>)"
proof -
  let ?out = "output_path_of dir (filename (ms ! t))"
  let ?w2 = "w\<lparr>files := (files w)(?out \<mapsto> [])\<rparr>"
  have "chunk_loop (lookup ih) decompress f h dict ?out (chunk_metadata (ms ! t)) ?w2 =
     (True, ?w2\<lparr>files := (files ?w2)(?out \<mapsto>
        [] @ concat (map (\<lambda>c. the (chunk_payload (lookup ih) decompress (content f) h dict c))
          (chunk_metadata (ms ! t))))\<rparr>)"
    using assms by (intro chunk_loop_ok) simp_all
  then show ?thesis
    using assms(1-4) by (simp add: extract_body_def Let_def malloc_ok fopen_wb_ok)
qed

lemma extract_body_unresolved:
  "parse manifest_buf = Some ms \<Longrightarrow> resolve_target ms nm idx = None \<Longrightarrow>
   extract_body parse prepare lookup decompress f h manifest_buf ci dict nm idx dir w = (None, w)"
  by (simp add: extract_body_def split: option.splits)

lemma extract_body_Some:
  "extract_body parse prepare lookup decompress f h manifest_buf ci dict nm idx dir w = (Some p, w') \<Longrightarrow>
   \<exists>ms t. parse manifest_buf = Some ms \<and> resolve_target ms nm idx = Some t
      \<and> p = output_path_of dir (filename (ms ! t))"
  by (auto simp: extract_body_def Let_def split: option.splits prod.splits bool.splits)

text \<open>
  C3: file resolution in extraction.  For every parsed manifest \<open>ms\<close> (of either
  digest width), requested name \<open>nm\<close> (\<open>None\<close> for NULL) and index \<open>idx\<close>: when
  \<open>idx\<close> is non-negative and below the record count, the record at \<open>idx\<close> is
  selected, whatever \<open>nm\<close> names; otherwise a record at position \<open>t\<close> is selected
  exactly when a name was given, record \<open>t\<close> has that file name and no earlier record
  has it (the first match in manifest order); resolution fails exactly when the index
  is out of bounds and no given name matches, and then \<^verbatim>\<open>extract_u64\<close> and
  \<^verbatim>\<open>extract_u128\<close> return NULL and leave the world as it is.  A path that is
  returned is the target directory joined with the file name of the selected record.
  And the selected record is the one extracted: when the request resolves to record
  \<open>t\<close>, the chunk index can be prepared, no library call fails and every chunk of
  record \<open>t\<close> has a payload, the extractor returns the target directory joined with
  the name of record \<open>t\<close>, and the only change on disk is that this file holds the
  payloads of the chunks of record \<open>t\<close> in descriptor order.
\<close>

theorem file_resolution:
  "(0 \<le> idx \<and> nat idx < length ms \<longrightarrow> resolve_target ms nm idx = Some (nat idx))
   \<and> (\<not> (0 \<le> idx \<and> nat idx < length ms) \<longrightarrow>
        (\<forall>t. resolve_target ms nm idx = Some t \<longleftrightarrow>
           (\<exists>n. nm = Some n \<and> t < length ms \<and> filename (ms ! t) = n
              \<and> (\<forall>j < t. filename (ms ! j) \<noteq> n))))
   \<and> (resolve_target ms nm idx = None \<longleftrightarrow>
        \<not> (0 \<le> idx \<and> nat idx < length ms) \<and> (\<forall>n. nm = Some n \<longrightarrow> n \<notin> filename ` set ms))
   \<and> (\<forall>w. parse_file_metadata_u64 ss buf = Some ms \<and> resolve_target ms nm idx = None \<longrightarrow>
        extract_u64 ss f h buf ci dict nm idx dir w = (None, w))
   \<and> (\<forall>w. parse_file_metadata_u128 ss buf = Some ms' \<and> resolve_target ms' nm idx = None \<longrightarrow>
        extract_u128 ss f h buf ci dict nm idx dir w = (None, w))
   \<and> (\<forall>w p w'. parse_file_metadata_u64 ss buf = Some ms
        \<and> extract_u64 ss f h buf ci dict nm idx dir w = (Some p, w') \<longrightarrow>
        (\<exists>t. resolve_target ms nm idx = Some t \<and> p = output_path_of dir (filename (ms ! t))))
   \<and> (\<forall>w p w'. parse_file_metadata_u128 ss buf = Some ms'
        \<and> extract_u128 ss f h buf ci dict nm idx dir w = (Some p, w') \<longrightarrow>
        (\<exists>t. resolve_target ms' nm idx = Some t \<and> p = output_path_of dir (filename (ms' ! t))))
   \<and> (\<forall>w ih t. parse_file_metadata_u64 ss buf = Some ms
        \<and> prepare_chunk_index_u64 ss ci = Some ih \<and> resolve_target ms nm idx = Some t
        \<and> faults w = []
        \<and> (\<forall>c \<in> set (chunk_metadata (ms ! t)).
              chunk_payload (lookup_chunk_location_u64 ss ih) (decompress_chunk_c ss)
                (content f) h dict c \<noteq> None) \<longrightarrow>
        extract_u64 ss f h buf ci dict nm idx dir w =
          (Some (output_path_of dir (filename (ms ! t))),
           w\<lparr>files := (files w)(output_path_of dir (filename (ms ! t)) \<mapsto>
              concat (map (\<lambda>c. the (chunk_payload (lookup_chunk_location_u64 ss ih)
                                      (decompress_chunk_c ss) (content f) h dict c))
                (chunk_metadata (ms ! t))))\<rparr>))
   \<and> (\<forall>w ih t. parse_file_metadata_u128 ss buf = Some ms'
        \<and> prepare_chunk_index_u128 ss ci = Some ih \<and> resolve_target ms' nm idx = Some t
        \<and> faults w = []
        \<and> (\<forall>c \<in> set (chunk_metadata (ms' ! t)).
              chunk_payload (lookup_chunk_location_u128 ss ih) (decompress_chunk_c ss)
                (content f) h dict c \<noteq> None) \<longrightarrow>
        extract_u128 ss f h buf ci dict nm idx dir w =
          (Some (output_path_of dir (filename (ms' ! t))),
           w\<lparr>files := (files w)(output_path_of dir (filename (ms' ! t)) \<mapsto>
              concat (map (\<lambda>c. the (chunk_payload (lookup_chunk_location_u128 ss ih)
                                      (decompress_chunk_c ss) (content f) h dict c))
                (chunk_metadata (ms' ! t))))\<rparr>))"
proof (intro conjI allI impI)
  show "resolve_target ms nm idx = Some (nat idx)" if "0 \<le> idx \<and> nat idx < length ms"
    using that by (simp add: resolve_target_def)
next
  fix t assume "\<not> (0 \<le> idx \<and> nat idx < length ms)"
  then show "resolve_target ms nm idx = Some t \<longleftrightarrow>
           (\<exists>n. nm = Some n \<and> t < length ms \<and> filename (ms ! t) = n
              \<and> (\<forall>j < t. filename (ms ! j) \<noteq> n))"
    by (cases nm) (auto simp: resolve_target_def name_scan_Some)
next
  show "resolve_target ms nm idx = None \<longleftrightarrow>
        \<not> (0 \<le> idx \<and> nat idx < length ms) \<and> (\<forall>n. nm = Some n \<longrightarrow> n \<notin> filename ` set ms)"
    by (cases nm) (auto simp: resolve_target_def name_scan_None)
next
  fix w assume "parse_file_metadata_u64 ss buf = Some ms \<and> resolve_target ms nm idx = None"
  then show "extract_u64 ss f h buf ci dict nm idx dir w = (None, w)"
    by (simp add: extract_u64_def extract_body_unresolved)
next
  fix w assume "parse_file_metadata_u128 ss buf = Some ms' \<and> resolve_target ms' nm idx = None"
  then show "extract_u128 ss f h buf ci dict nm idx dir w = (None, w)"
    by (simp add: extract_u128_def extract_body_unresolved)
next
  fix w p w'
  assume "parse_file_metadata_u64 ss buf = Some ms
        \<and> extract_u64 ss f h buf ci dict nm idx dir w = (Some p, w')"
  then show "\<exists>t. resolve_target ms nm idx = Some t \<and> p = output_path_of dir (filename (ms ! t))"
    using extract_body_Some [of "parse_file_metadata_u64 ss" "prepare_chunk_index_u64 ss"
        "lookup_chunk_location_u64 ss" "decompress_chunk_c ss" f h buf ci dict nm idx dir w p w']
    by (auto simp: extract_u64_def)
next
  fix w p w'
  assume "parse_file_metadata_u128 ss buf = Some ms'
        \<and> extract_u128 ss f h buf ci dict nm idx dir w = (Some p, w')"
  then show "\<exists>t. resolve_target ms' nm idx = Some t \<and> p = output_path_of dir (filename (ms' ! t))"
    using extract_body_Some [of "parse_file_metadata_u128 ss" "prepare_chunk_index_u128 ss"
        "lookup_chunk_location_u128 ss" "decompress_chunk_c ss" f h buf ci dict nm idx dir w p w']
    by (auto simp: extract_u128_def)
next
  fix w :: world and ih t
  assume a: "parse_file_metadata_u64 ss buf = Some ms
        \<and> prepare_chunk_index_u64 ss ci = Some ih \<and> resolve_target ms nm idx = Some t
        \<and> faults w = []
        \<and> (\<forall>c \<in> set (chunk_metadata (ms ! t)).
              chunk_payload (lookup_chunk_location_u64 ss ih) (decompress_chunk_c ss)
                (content f) h dict c \<noteq> None)"
  show "extract_u64 ss f h buf ci dict nm idx dir w =
          (Some (output_path_of dir (filename (ms ! t))),
           w\<lparr>files := (files w)(output_path_of dir (filename (ms ! t)) \<mapsto>
              concat (map (\<lambda>c. the (chunk_payload (lookup_chunk_location_u64 ss ih)
                                      (decompress_chunk_c ss) (content f) h dict c))
                (chunk_metadata (ms ! t))))\<rparr>)"
    unfolding extract_u64_def
  proof (rule extract_body_ok)
    from a show "faults w = []" by simp
    from a show "parse_file_metadata_u64 ss buf = Some ms" by simp
    from a show "prepare_chunk_index_u64 ss ci = Some ih" by simp
    from a show "resolve_target ms nm idx = Some t" by simp
    from a show "\<forall>c \<in> set (chunk_metadata (ms ! t)).
              chunk_payload (lookup_chunk_location_u64 ss ih) (decompress_chunk_c ss)
                (content f) h dict c \<noteq> None" by simp
  qed
next
  fix w :: world and ih t
  assume a: "parse_file_metadata_u128 ss buf = Some ms'
        \<and> prepare_chunk_index_u128 ss ci = Some ih \<and> resolve_target ms' nm idx = Some t
        \<and> faults w = []
        \<and> (\<forall>c \<in> set (chunk_metadata (ms' ! t)).
              chunk_payload (lookup_chunk_location_u128 ss ih) (decompress_chunk_c ss)
                (content f) h dict c \<noteq> None)"
  show "extract_u128 ss f h buf ci dict nm idx dir w =
          (Some (output_path_of dir (filename (ms' ! t))),
           w\<lparr>files := (files w)(output_path_of dir (filename (ms' ! t)) \<mapsto>
              concat (map (\<lambda>c. the (chunk_payload (lookup_chunk_location_u128 ss ih)
                                      (decompress_chunk_c ss) (content f) h dict c))
                (chunk_metadata (ms' ! t))))\<rparr>)"
    unfolding extract_u128_def
  proof (rule extract_body_ok)
    from a show "faults w = []" by simp
    from a show "parse_file_metadata_u128 ss buf = Some ms'" by simp
    from a show "prepare_chunk_index_u128 ss ci = Some ih" by simp
    from a show "resolve_target ms' nm idx = Some t" by simp
    from a show "\<forall>c \<in> set (chunk_metadata (ms' ! t)).
              chunk_payload (lookup_chunk_location_u128 ss ih) (decompress_chunk_c ss)
                (content f) h dict c \<noteq> None" by simp
  qed
qed

theorem file_resolution_witness:
  "resolve_target demo_manifest (Some ''b.txt'') 0 = Some 0
   \<and> resolve_target demo_manifest (Some ''b.txt'') (- 1) = Some 1
   \<and> resolve_target demo_manifest (Some ''c.txt'') 2 = None
   \<and> extract_u64 demo_ss \<lparr>content = demo_archive, pos = 0\<rparr>
        (header_of_bytes demo_ss (take 2 demo_archive)) [1] [7] [9] (Some ''c.txt'') 2 ''out''
        (demo_world demo_archive None [])
      = (None, demo_world demo_archive None [])
   \<and> extract_u64 demo_ss \<lparr>content = demo_archive, pos = 0\<rparr>
        (header_of_bytes demo_ss (take 2 demo_archive)) [1] [7] [9] (Some ''b.txt'') 0 ''out''
        (demo_world demo_archive None [])
      = (Some ''out/a.txt'',
         (demo_world demo_archive None [])
           \<lparr>files := (files (demo_world demo_archive None []))
              (''out/a.txt'' \<mapsto> [1, 2, 1, 2, 3, 4, 5, 3, 4, 5])\<rparr>)
   \<and> extract_u64 demo_ss \<lparr>content = demo_archive, pos = 0\<rparr>
        (header_of_bytes demo_ss (take 2 demo_archive)) [1] [7] [9] (Some ''b.txt'') (- 1) ''out''
        (demo_world demo_archive None [])
      = (Some ''out/b.txt'',
         (demo_world demo_archive None [])
           \<lparr>files := (files (demo_world demo_archive None []))(''out/b.txt'' \<mapsto> [])\<rparr>)"
proof -
  let ?f = "\<lparr>content = demo_archive, pos = 0\<rparr>"
  let ?h = "header_of_bytes demo_ss (take 2 demo_archive)"
  let ?w = "demo_world demo_archive None []"
  let ?c1 = "\<lparr>hash = 10 :: 64 word, meta_length = 4\<rparr>"
  let ?c2 = "\<lparr>hash = 11 :: 64 word, meta_length = 6\<rparr>"
  note R = file_resolution [where ms = demo_manifest and ss = demo_ss and buf = "[1]"]
  have a: "resolve_target demo_manifest (Some ''b.txt'') 0 = Some 0"
    using R [where idx = 0 and nm = "Some ''b.txt''", THEN conjunct1]
    by (simp add: demo_manifest_def)
  have "\<exists>n. Some ''b.txt'' = Some n \<and> 1 < length demo_manifest
      \<and> filename (demo_manifest ! 1) = n \<and> (\<forall>j < 1. filename (demo_manifest ! j) \<noteq> n)"
    by (simp add: demo_manifest_def)
  then have b: "resolve_target demo_manifest (Some ''b.txt'') (- 1) = Some 1"
    using R [where idx = "- 1" and nm = "Some ''b.txt''", THEN conjunct2, THEN conjunct1]
    by simp
  have c: "resolve_target demo_manifest (Some ''c.txt'') 2 = None"
    using R [where idx = 2 and nm = "Some ''c.txt''", THEN conjunct2, THEN conjunct2, THEN conjunct1]
    by (simp add: demo_manifest_def)
  have p: "parse_file_metadata_u64 demo_ss [1] = Some demo_manifest"
    by (simp add: demo_ss_def)
  have q: "prepare_chunk_index_u64 demo_ss [7] = Some ()"
    by (simp add: demo_ss_def)
  have nf: "faults ?w = []" by (simp add: demo_world_def)
  have d: "extract_u64 demo_ss ?f ?h [1] [7] [9] (Some ''c.txt'') 2 ''out'' ?w = (None, ?w)"
    using R [where idx = 2 and nm = "Some ''c.txt''", THEN conjunct2, THEN conjunct2,
        THEN conjunct2, THEN conjunct1, rule_format, OF conjI, OF p c] .
  have rec0: "filename (demo_manifest ! 0) = ''a.txt''"
    "chunk_metadata (demo_manifest ! 0) = [?c1, ?c2]"
    and rec1: "filename (demo_manifest ! 1) = ''b.txt''" "chunk_metadata (demo_manifest ! 1) = []"
    by (simp_all add: demo_manifest_def)
  have pay: "chunk_payload (lookup_chunk_location_u64 demo_ss ()) (decompress_chunk_c demo_ss)
        (content ?f) ?h [9] ?c1 = Some [1, 2, 1, 2]"
    "chunk_payload (lookup_chunk_location_u64 demo_ss ()) (decompress_chunk_c demo_ss)
        (content ?f) ?h [9] ?c2 = Some [3, 4, 5, 3, 4, 5]"
    by (simp_all add: chunk_payload_def demo_ss_def demo_archive_def section_bytes_def)
  have pay': "chunk_payload (lookup_chunk_location_u64 demo_ss ()) (decompress_chunk_c demo_ss)
        demo_archive ?h [9] ?c1 = Some [1, 2, 1, 2]"
    "chunk_payload (lookup_chunk_location_u64 demo_ss ()) (decompress_chunk_c demo_ss)
        demo_archive ?h [9] ?c2 = Some [3, 4, 5, 3, 4, 5]"
    using pay by simp_all
  have ok0: "\<forall>c \<in> set (chunk_metadata (demo_manifest ! 0)).
      chunk_payload (lookup_chunk_location_u64 demo_ss ()) (decompress_chunk_c demo_ss)
        (content ?f) ?h [9] c \<noteq> None"
    unfolding rec0 using pay by simp
  have ok1: "\<forall>c \<in> set (chunk_metadata (demo_manifest ! 1)).
      chunk_payload (lookup_chunk_location_u64 demo_ss ()) (decompress_chunk_c demo_ss)
        (content ?f) ?h [9] c \<noteq> None"
    unfolding rec1 by simp
  note S = R [where f = ?f and h = ?h and ci = "[7]" and dict = "[9]" and dir = "''out''",
      THEN conjunct2, THEN conjunct2, THEN conjunct2, THEN conjunct2, THEN conjunct2,
      THEN conjunct2, THEN conjunct2, THEN conjunct1, rule_format]
  have e: "extract_u64 demo_ss ?f ?h [1] [7] [9] (Some ''b.txt'') 0 ''out'' ?w
      = (Some ''out/a.txt'', ?w\<lparr>files := (files ?w)(''out/a.txt'' \<mapsto> [1, 2, 1, 2, 3, 4, 5, 3, 4, 5])\<rparr>)"
    using S [where idx = 0 and nm = "Some ''b.txt''",
        OF conjI [OF p conjI [OF q conjI [OF a conjI [OF nf ok0]]]]]
    unfolding rec0 by (simp add: pay' output_path_of_def)
  have g: "extract_u64 demo_ss ?f ?h [1] [7] [9] (Some ''b.txt'') (- 1) ''out'' ?w
      = (Some ''out/b.txt'', ?w\<lparr>files := (files ?w)(''out/b.txt'' \<mapsto> [])\<rparr>)"
    using S [where idx = "- 1" and nm = "Some ''b.txt''",
        OF conjI [OF p conjI [OF q conjI [OF b conjI [OF nf ok1]]]]]
    unfolding rec1 by (simp add: output_path_of_def)
  from a b c d e g show ?thesis by (intro conjI)
qed

subsection \<open>The handler registry\<close>

lemma already_registered_iff:
  "0 \<le> i \<Longrightarrow>
   already_registered r h i \<longleftrightarrow>
     (\<exists>k. i \<le> k \<and> k < handler_count r \<and> archive_handlers r ! nat k = h)"
proof (induction r h i rule: already_registered.induct)
  case (1 r h i)
  show ?case
  proof (cases "i < handler_count r")
    case False
    then show ?thesis by (subst already_registered.simps) auto
  next
    case in_range: True
    show ?thesis
    proof (cases "archive_handlers r ! nat i = h")
      case True
      with in_range show ?thesis by (subst already_registered.simps) auto
    next
      case False
      have "already_registered r h i = already_registered r h (i + 1)"
        using in_range False by (subst already_registered.simps) simp
      also have "\<dots> \<longleftrightarrow> (\<exists>k. i + 1 \<le> k \<and> k < handler_count r \<and> archive_handlers r ! nat k = h)"
        using "1.IH" [OF in_range False] "1.prems" by simp
      also have "\<dots> \<longleftrightarrow> (\<exists>k. i \<le> k \<and> k < handler_count r \<and> archive_handlers r ! nat k = h)"
      proof
        assume "\<exists>k. i + 1 \<le> k \<and> k < handler_count r \<and> archive_handlers r ! nat k = h"
        then obtain k where "i + 1 \<le> k" "k < handler_count r" "archive_handlers r ! nat k = h"
          by blast
        then show "\<exists>k. i \<le> k \<and> k < handler_count r \<and> archive_handlers r ! nat k = h"
          by (intro exI [of _ k]) simp
      next
        assume "\<exists>k. i \<le> k \<and> k < handler_count r \<and> archive_handlers r ! nat k = h"
        then obtain k where k: "i \<le> k" "k < handler_count r" "archive_handlers r ! nat k = h"
          by blast
        with False have "k \<noteq> i" by auto
        with k show "\<exists>k. i + 1 \<le> k \<and> k < handler_count r \<and> archive_handlers r ! nat k = h"
          by (intro exI [of _ k]) simp
      qed
      finally show ?thesis .
    qed
  qed
qed

lemma registered_nth:
  "nat (handler_count r) \<le> length (archive_handlers r) \<Longrightarrow> k < nat (handler_count r) \<Longrightarrow>
   registered r ! k = archive_handlers r ! k"
  by (simp add: registered_def)

lemma length_registered:
  "nat (handler_count r) \<le> length (archive_handlers r) \<Longrightarrow>
   length (registered r) = nat (handler_count r)"
  by (simp add: registered_def)

lemma already_registered_set:
  assumes "nat (handler_count r) \<le> length (archive_handlers r)"
  shows "already_registered r h 0 \<longleftrightarrow> h \<in> set (registered r)"
proof -
  have "already_registered r h 0 \<longleftrightarrow>
        (\<exists>k. 0 \<le> k \<and> k < handler_count r \<and> archive_handlers r ! nat k = h)"
    by (rule already_registered_iff) simp
  also have "\<dots> \<longleftrightarrow> (\<exists>j < nat (handler_count r). archive_handlers r ! j = h)"
  proof
    assume "\<exists>k. 0 \<le> k \<and> k < handler_count r \<and> archive_handlers r ! nat k = h"
    then obtain k where "0 \<le> k" "k < handler_count r" "archive_handlers r ! nat k = h" by blast
    then show "\<exists>j < nat (handler_count r). archive_handlers r ! j = h"
      by (intro exI [of _ "nat k"]) auto
  next
    assume "\<exists>j < nat (handler_count r). archive_handlers r ! j = h"
    then obtain j where "j < nat (handler_count r)" "archive_handlers r ! j = h" by blast
    then show "\<exists>k. 0 \<le> k \<and> k < handler_count r \<and> archive_handlers r ! nat k = h"
      by (intro exI [of _ "int j"]) auto
  qed
  also have "\<dots> \<longleftrightarrow> h \<in> set (registered r)"
    using assms by (auto simp: in_set_conv_nth length_registered registered_nth)
  finally show ?thesis .
qed

lemma reg_inv_le: "reg_inv r \<Longrightarrow> nat (handler_count r) \<le> length (archive_handlers r)"
  by (simp add: reg_inv_def MAX_HANDLERS_def nat_le_iff)

lemma registered_register:
  assumes "reg_inv r"
  shows "registered (register_archive_handler h r) =
           (if h = NULL \<or> handler_count r \<ge> MAX_HANDLERS \<or> h \<in> set (registered r)
            then registered r else registered r @ [h])"
proof -
  from assms have len: "length (archive_handlers r) = 50" and c0: "0 \<le> handler_count r"
    and c50: "handler_count r \<le> 50"
    by (simp_all add: reg_inv_def MAX_HANDLERS_def)
  then have le: "nat (handler_count r) \<le> length (archive_handlers r)" by simp
  show ?thesis
  proof (cases "h = NULL \<or> handler_count r \<ge> MAX_HANDLERS \<or> h \<in> set (registered r)")
    case True
    then show ?thesis
      using already_registered_set [OF le, of h]
      by (auto simp: register_archive_handler_def)
  next
    case False
    then have lt: "nat (handler_count r) < length (archive_handlers r)"
      using len c0 by (simp add: MAX_HANDLERS_def nat_less_iff)
    have "nat (handler_count r + 1) = Suc (nat (handler_count r))"
      using c0 by simp
    then have "take (nat (handler_count r + 1)) ((archive_handlers r)[nat (handler_count r) := h])
          = take (nat (handler_count r)) (archive_handlers r) @ [h]"
      using lt by (simp add: take_Suc_conv_app_nth)
    with False show ?thesis
      using already_registered_set [OF le, of h]
      by (simp add: register_archive_handler_def registered_def)
  qed
qed

lemma reg_inv_initial: "reg_inv initial_registry"
  by (simp add: reg_inv_def initial_registry_def registered_def MAX_HANDLERS_def)

lemma reg_inv_register:
  assumes "reg_inv r"
  shows "reg_inv (register_archive_handler h r)"
proof (cases "h = NULL \<or> handler_count r \<ge> MAX_HANDLERS \<or> h \<in> set (registered r)")
  case True
  have le: "nat (handler_count r) \<le> length (archive_handlers r)"
    using assms by (rule reg_inv_le)
  from True have "register_archive_handler h r = r"
    using already_registered_set [OF le, of h] by (auto simp: register_archive_handler_def)
  with assms show ?thesis by simp
next
  case False
  have le: "nat (handler_count r) \<le> length (archive_handlers r)"
    using assms by (rule reg_inv_le)
  from False have upd: "register_archive_handler h r =
      r\<lparr>archive_handlers := (archive_handlers r)[nat (handler_count r) := h],
        handler_count := handler_count r + 1\<rparr>"
    using already_registered_set [OF le, of h] by (auto simp: register_archive_handler_def)
  have "registered (register_archive_handler h r) = registered r @ [h]"
    using registered_register [OF assms, of h] False by simp
  moreover have "length (archive_handlers (register_archive_handler h r)) = 50"
    "0 \<le> handler_count (register_archive_handler h r)"
    "handler_count (register_archive_handler h r) \<le> MAX_HANDLERS"
    using assms False by (simp_all add: upd reg_inv_def MAX_HANDLERS_def)
  ultimately show ?thesis
    using assms False by (simp add: reg_inv_def)
qed

lemma reg_inv_shutdown: "reg_inv r \<Longrightarrow> reg_inv (archive_system_shutdown r)"
  by (simp add: reg_inv_def archive_system_shutdown_def registered_def MAX_HANDLERS_def)

lemma handler_scan_none:
  "0 \<le> i \<Longrightarrow>
   \<forall>k. i \<le> k \<and> k < handler_count r \<longrightarrow> \<not> is_supported (vt (archive_handlers r ! nat k)) n \<Longrightarrow>
   handler_scan vt r n i = NULL"
proof (induction vt r n i rule: handler_scan.induct)
  case (1 vt r n i)
  show ?case
  proof (cases "i < handler_count r")
    case False
    then show ?thesis by (subst handler_scan.simps) simp
  next
    case True
    with "1.prems" have ns: "\<not> is_supported (vt (archive_handlers r ! nat i)) n" by simp
    have "handler_scan vt r n i = handler_scan vt r n (i + 1)"
      using True ns by (subst handler_scan.simps) simp
    also have "\<dots> = NULL"
      using "1.IH" [OF True ns] "1.prems" by simp
    finally show ?thesis .
  qed
qed

lemma handler_scan_first:
  "0 \<le> i \<Longrightarrow> i \<le> k \<Longrightarrow> k < handler_count r \<Longrightarrow>
   is_supported (vt (archive_handlers r ! nat k)) n \<Longrightarrow>
   \<forall>j. i \<le> j \<and> j < k \<longrightarrow> \<not> is_supported (vt (archive_handlers r ! nat j)) n \<Longrightarrow>
   handler_scan vt r n i = archive_handlers r ! nat k"
proof (induction vt r n i rule: handler_scan.induct)
  case (1 vt r n i)
  from "1.prems" have in_range: "i < handler_count r" by simp
  show ?case
  proof (cases "i = k")
    case True
    with "1.prems" in_range show ?thesis by (subst handler_scan.simps) simp
  next
    case False
    with "1.prems" have lt: "i < k" by simp
    with "1.prems" have ns: "\<not> is_supported (vt (archive_handlers r ! nat i)) n" by simp
    have "handler_scan vt r n i = handler_scan vt r n (i + 1)"
      using in_range ns by (subst handler_scan.simps) simp
    also have "\<dots> = archive_handlers r ! nat k"
      using "1.IH" [OF in_range ns] "1.prems" lt by simp
    finally show ?thesis .
  qed
qed

lemma register_noop:
  assumes "reg_inv r" "h = NULL \<or> handler_count r \<ge> MAX_HANDLERS \<or> h \<in> set (registered r)"
  shows "register_archive_handler h r = r"
  using assms already_registered_set [OF reg_inv_le [OF assms(1)], of h]
  by (auto simp: register_archive_handler_def)

lemma count_list_distinct: "distinct xs \<Longrightarrow> x \<in> set xs \<Longrightarrow> count_list xs x = 1"
  by (induction xs) (auto simp: count_list_0_iff)

lemma get_handler_none:
  assumes "reg_inv r" "\<forall>g \<in> set (registered r). \<not> is_supported (vt g) n"
  shows "get_handler_for_file vt r (Some n) = NULL"
proof -
  have le: "nat (handler_count r) \<le> length (archive_handlers r)"
    using assms(1) by (rule reg_inv_le)
  have "\<not> is_supported (vt (archive_handlers r ! nat k)) n" if "0 \<le> k" "k < handler_count r" for k
  proof -
    from that have lt: "nat k < nat (handler_count r)" by simp
    then have "nat k < length (registered r)"
      using le by (simp add: length_registered)
    then have "registered r ! nat k \<in> set (registered r)"
      by (rule nth_mem)
    then have "\<not> is_supported (vt (registered r ! nat k)) n"
      using assms(2) by blast
    moreover have "registered r ! nat k = archive_handlers r ! nat k"
      using le lt by (rule registered_nth)
    ultimately show ?thesis by simp
  qed
  then have "\<forall>k. 0 \<le> k \<and> k < handler_count r \<longrightarrow>
      \<not> is_supported (vt (archive_handlers r ! nat k)) n"
    by blast
  then have "handler_scan vt r n 0 = NULL"
    by (intro handler_scan_none) simp_all
  then show ?thesis
    by (simp only: get_handler_for_file_def option.case)
qed

lemma get_handler_first:
  assumes "reg_inv r" "k < length (registered r)" "is_supported (vt (registered r ! k)) n"
    "\<forall>j < k. \<not> is_supported (vt (registered r ! j)) n"
  shows "get_handler_for_file vt r (Some n) = registered r ! k"
proof -
  have le: "nat (handler_count r) \<le> length (archive_handlers r)"
    using assms(1) by (rule reg_inv_le)
  from assms(2) have k: "k < nat (handler_count r)" using le by (simp add: length_registered)
  have nth: "registered r ! j = archive_handlers r ! j" if "j \<le> k" for j
    using that k le by (simp add: registered_nth)
  have "handler_scan vt r n 0 = archive_handlers r ! nat (int k)"
  proof (rule handler_scan_first)
    show "int k < handler_count r" using k by simp
    show "is_supported (vt (archive_handlers r ! nat (int k))) n"
      using assms(3) nth [of k] by simp
    show "\<forall>j. 0 \<le> j \<and> j < int k \<longrightarrow> \<not> is_supported (vt (archive_handlers r ! nat j)) n"
    proof (intro allI impI)
      fix j assume "0 \<le> j \<and> j < int k"
      then have jk: "nat j < k" by linarith
      with assms(4) have "\<not> is_supported (vt (registered r ! nat j)) n" by blast
      moreover have "registered r ! nat j = archive_handlers r ! nat j"
        using jk by (intro nth) simp
      ultimately show "\<not> is_supported (vt (archive_handlers r ! nat j)) n"
        by simp
    qed
  qed simp_all
  then show ?thesis
    using nth [of k] by (simp add: get_handler_for_file_def)
qed

text \<open>
  C7: registry idempotence and priority.  In every registry state \<open>r\<close> that satisfies
  \<open>reg_inv\<close> (the zeroed registry does, and registration and shutdown keep it):
  registering a handler a second time changes nothing, and after registering \<open>h\<close>
  twice \<open>h\<close> occurs exactly once among the registered handlers (when \<open>h\<close> is not
  NULL and there was room for it or it was present already); registering NULL, or
  registering when the counter has reached 50, leaves the registry as it is; a handler
  that is added goes to the end of the registration order; \<^verbatim>\<open>get_handler_for_file\<close>
  returns NULL for a NULL file name and when no registered handler accepts the name,
  and otherwise returns the first handler in registration order that accepts it,
  whatever later handlers accept.
\<close>

theorem registry_idempotence_and_priority:
  assumes "reg_inv r"
  shows "register_archive_handler h (register_archive_handler h r) = register_archive_handler h r
    \<and> (h \<noteq> NULL \<and> (handler_count r < MAX_HANDLERS \<or> h \<in> set (registered r)) \<longrightarrow>
         count_list (registered (register_archive_handler h (register_archive_handler h r))) h = 1)
    \<and> register_archive_handler NULL r = r
    \<and> (handler_count r \<ge> MAX_HANDLERS \<longrightarrow> register_archive_handler h r = r)
    \<and> registered (register_archive_handler h r) =
         (if h = NULL \<or> handler_count r \<ge> MAX_HANDLERS \<or> h \<in> set (registered r)
          then registered r else registered r @ [h])
    \<and> reg_inv (register_archive_handler h r)
    \<and> get_handler_for_file vt r None = NULL
    \<and> ((\<forall>g \<in> set (registered r). \<not> is_supported (vt g) n) \<longrightarrow>
         get_handler_for_file vt r (Some n) = NULL)
    \<and> (\<forall>k < length (registered r).
          is_supported (vt (registered r ! k)) n
          \<and> (\<forall>j < k. \<not> is_supported (vt (registered r ! j)) n) \<longrightarrow>
          get_handler_for_file vt r (Some n) = registered r ! k)"
proof -
  let ?r1 = "register_archive_handler h r"
  have inv1: "reg_inv ?r1" using assms by (rule reg_inv_register)
  have reg1: "registered ?r1 =
         (if h = NULL \<or> handler_count r \<ge> MAX_HANDLERS \<or> h \<in> set (registered r)
          then registered r else registered r @ [h])"
    using assms by (rule registered_register)
  have idem: "register_archive_handler h ?r1 = ?r1"
  proof (cases "h = NULL \<or> handler_count r \<ge> MAX_HANDLERS \<or> h \<in> set (registered r)")
    case True
    then have "?r1 = r" using assms by (simp add: register_noop)
    then show ?thesis by simp
  next
    case False
    then have "h \<in> set (registered ?r1)" using reg1 by simp
    then show ?thesis using inv1 by (simp add: register_noop)
  qed
  have once: "h \<noteq> NULL \<and> (handler_count r < MAX_HANDLERS \<or> h \<in> set (registered r)) \<longrightarrow>
         count_list (registered (register_archive_handler h ?r1)) h = 1"
  proof
    assume "h \<noteq> NULL \<and> (handler_count r < MAX_HANDLERS \<or> h \<in> set (registered r))"
    then have "h \<in> set (registered ?r1)" using reg1 by auto
    moreover have "distinct (registered ?r1)" using inv1 by (simp add: reg_inv_def)
    ultimately have "count_list (registered ?r1) h = 1" by (rule count_list_distinct [rotated])
    then show "count_list (registered (register_archive_handler h ?r1)) h = 1"
      by (simp only: idem)
  qed
  have null: "register_archive_handler NULL r = r"
    by (simp add: register_archive_handler_def)
  have full: "handler_count r \<ge> MAX_HANDLERS \<longrightarrow> register_archive_handler h r = r"
    by (simp add: register_archive_handler_def)
  have gnull: "get_handler_for_file vt r None = NULL"
    by (simp add: get_handler_for_file_def)
  have gnone: "(\<forall>g \<in> set (registered r). \<not> is_supported (vt g) n) \<longrightarrow>
         get_handler_for_file vt r (Some n) = NULL"
    using assms by (blast intro: get_handler_none)
  have gfirst: "\<forall>k < length (registered r).
          is_supported (vt (registered r ! k)) n
          \<and> (\<forall>j < k. \<not> is_supported (vt (registered r ! j)) n) \<longrightarrow>
          get_handler_for_file vt r (Some n) = registered r ! k"
    using assms by (blast intro: get_handler_first)
  show ?thesis
    by (intro conjI) (fact idem, fact once, fact null, fact full, fact reg1, fact inv1,
      fact gnull, fact gnone, fact gfirst)
qed

theorem registry_idempotence_and_priority_witness:
  "reg_inv initial_registry
   \<and> count_list (registered (register_archive_handler 5
         (register_archive_handler 5 initial_registry))) 5 = 1
   \<and> registered (register_archive_handler 7 (register_archive_handler 5 initial_registry)) = [5, 7]
   \<and> is_supported (demo_vt 5) ''g.ssmc'' \<and> is_supported (demo_vt 7) ''g.ssmc''
   \<and> get_handler_for_file demo_vt
         (register_archive_handler 7 (register_archive_handler 5 initial_registry))
         (Some ''g.ssmc'') = 5
   \<and> get_handler_for_file demo_vt
         (register_archive_handler 7 (register_archive_handler 5 initial_registry))
         (Some ''g.rar'') = NULL"
proof -
  let ?r5 = "register_archive_handler 5 initial_registry"
  let ?r57 = "register_archive_handler 7 ?r5"
  note T0 = registry_idempotence_and_priority [OF reg_inv_initial]
  have pre: "(5::nat) \<noteq> NULL
      \<and> (handler_count initial_registry < MAX_HANDLERS \<or> 5 \<in> set (registered initial_registry))"
    by (simp add: NULL_def initial_registry_def MAX_HANDLERS_def)
  have once: "count_list (registered (register_archive_handler 5 ?r5)) 5 = 1"
    using T0 [of 5] pre by blast
  have inv5: "reg_inv ?r5"
    using T0 [of 5] by blast
  have inv57: "reg_inv ?r57"
    using registry_idempotence_and_priority [OF inv5, of 7] by blast
  have regs: "registered ?r57 = [5, 7]"
    by code_simp
  have s5: "is_supported (demo_vt 5) ''g.ssmc''" and s7: "is_supported (demo_vt 7) ''g.ssmc''"
    by code_simp+
  note T2 = registry_idempotence_and_priority [OF inv57]
  have "0 < length (registered ?r57) \<and> is_supported (demo_vt (registered ?r57 ! 0)) ''g.ssmc''
      \<and> (\<forall>j < 0. \<not> is_supported (demo_vt (registered ?r57 ! j)) ''g.ssmc'')"
    using s5 by (simp add: regs)
  then have "get_handler_for_file demo_vt ?r57 (Some ''g.ssmc'') = registered ?r57 ! 0"
    using T2 [of _ demo_vt "''g.ssmc''"] by blast
  then have first: "get_handler_for_file demo_vt ?r57 (Some ''g.ssmc'') = 5"
    by (simp add: regs)
  have n5: "\<not> is_supported (demo_vt 5) ''g.rar''" and n7: "\<not> is_supported (demo_vt 7) ''g.rar''"
    by code_simp+
  then have "\<forall>g \<in> set (registered ?r57). \<not> is_supported (demo_vt g) ''g.rar''"
    by (simp add: regs)
  then have none: "get_handler_for_file demo_vt ?r57 (Some ''g.rar'') = NULL"
    using T2 [of _ demo_vt "''g.rar''"] by blast
  show ?thesis
    by (intro conjI) (fact reg_inv_initial, fact once, fact regs, fact s5, fact s7, fact first,
      fact none)
qed

subsection \<open>The listing projection\<close>

lemma list_loop_end:
  "\<not> i < raw \<Longrightarrow> list_loop entries raw i working w = Returns (Some working, w)"
  by (subst list_loop.simps) simp

lemma list_loop_full:
  "i < raw \<Longrightarrow> length working \<ge> 255 \<Longrightarrow>
   list_loop entries raw i working w = Returns (Some working, w)"
  by (subst list_loop.simps) (simp add: MAX_ARCHIVE_DISPLAY_ITEMS_def)

lemma list_loop_crash_range:
  "i < raw \<Longrightarrow> length working < 255 \<Longrightarrow> i < 0 \<or> nat i \<ge> length entries \<Longrightarrow>
   list_loop entries raw i working w = Crash"
  by (subst list_loop.simps) (simp add: MAX_ARCHIVE_DISPLAY_ITEMS_def)

lemma list_loop_crash_null:
  "i < raw \<Longrightarrow> length working < 255 \<Longrightarrow> 0 \<le> i \<Longrightarrow> nat i < length entries \<Longrightarrow>
   path (entries ! nat i) = None \<Longrightarrow>
   list_loop entries raw i working w = Crash"
  by (subst list_loop.simps) (simp add: MAX_ARCHIVE_DISPLAY_ITEMS_def)

lemma list_loop_skip:
  "i < raw \<Longrightarrow> length working < 255 \<Longrightarrow> 0 \<le> i \<Longrightarrow> nat i < length entries \<Longrightarrow>
   path (entries ! nat i) = Some p \<Longrightarrow> \<not> eligible (entries ! nat i) \<Longrightarrow>
   list_loop entries raw i working w = list_loop entries raw (i + 1) working w"
  by (subst list_loop.simps [of _ _ i])
     (auto simp: MAX_ARCHIVE_DISPLAY_ITEMS_def eligible_def strchr_null_def)

lemma list_loop_copy:
  "i < raw \<Longrightarrow> length working < 255 \<Longrightarrow> 0 \<le> i \<Longrightarrow> nat i < length entries \<Longrightarrow>
   path (entries ! nat i) = Some p \<Longrightarrow> eligible (entries ! nat i) \<Longrightarrow>
   list_loop entries raw i working w =
     (case strdup p w of
        (False, w1) \<Rightarrow> Returns (None, w1)
      | (True, w1) \<Rightarrow> list_loop entries raw (i + 1) (working @ [p]) w1)"
  by (subst list_loop.simps [of _ _ i])
     (auto simp: MAX_ARCHIVE_DISPLAY_ITEMS_def eligible_def strchr_null_def)

lemma reported_step:
  assumes "0 \<le> i" "i < raw" "nat i < length entries"
  shows "drop (nat i) (reported entries raw) =
           entries ! nat i # drop (nat (i + 1)) (reported entries raw)"
proof -
  have "nat i < length (reported entries raw)"
    using assms by (simp add: reported_def)
  then have "drop (nat i) (reported entries raw) =
      reported entries raw ! nat i # drop (Suc (nat i)) (reported entries raw)"
    by (simp add: Cons_nth_drop_Suc)
  moreover have "reported entries raw ! nat i = entries ! nat i"
    using assms by (simp add: reported_def)
  moreover have "Suc (nat i) = nat (i + 1)"
    using assms by simp
  ultimately show ?thesis by simp
qed

lemma reported_done: "0 \<le> i \<Longrightarrow> \<not> i < raw \<Longrightarrow> drop (nat i) (reported entries raw) = []"
  by (simp add: reported_def)

lemma eligible_paths_Cons:
  "eligible_paths (e # es) = (if eligible e then the (path e) # eligible_paths es else eligible_paths es)"
  by (simp add: eligible_paths_def)

lemma list_loop_result:
  "n = nat (raw - i) \<Longrightarrow> 0 \<le> i \<Longrightarrow> length working \<le> 255 \<Longrightarrow>
   list_loop entries raw i working w = Returns (Some wl, w') \<Longrightarrow>
   wl = take 255 (working @ eligible_paths (drop (nat i) (reported entries raw)))"
proof (induction n arbitrary: i working w)
  case 0
  then have "\<not> i < raw" by simp
  with 0 show ?case by (simp add: list_loop_end reported_done eligible_paths_def)
next
  case (Suc n)
  then have lt: "i < raw" by simp
  show ?case
  proof (cases "length working \<ge> 255")
    case True
    with Suc.prems lt show ?thesis by (simp add: list_loop_full)
  next
    case False
    then have short: "length working < 255" by simp
    have in_range: "nat i < length entries"
      using Suc.prems lt short list_loop_crash_range [of i raw working entries w]
      by (cases "nat i < length entries") auto
    note step = reported_step [OF Suc.prems(2) lt in_range]
    obtain p where p: "path (entries ! nat i) = Some p"
      using Suc.prems lt short in_range list_loop_crash_null [of i raw working entries w]
      by (cases "path (entries ! nat i)") auto
    have n: "n = nat (raw - (i + 1))" "0 \<le> i + 1"
      using Suc.prems by simp_all
    show ?thesis
    proof (cases "eligible (entries ! nat i)")
      case False
      with Suc.prems lt short in_range p
      have "list_loop entries raw (i + 1) working w = Returns (Some wl, w')"
        by (simp add: list_loop_skip)
      from Suc.IH [OF n Suc.prems(3) this] False show ?thesis
        by (simp add: step eligible_paths_Cons)
    next
      case True
      with Suc.prems lt short in_range p
      have c: "(case strdup p w of
            (False, w1) \<Rightarrow> Returns (None, w1)
          | (True, w1) \<Rightarrow> list_loop entries raw (i + 1) (working @ [p]) w1) = Returns (Some wl, w')"
        by (simp add: list_loop_copy)
      then obtain w1 where "list_loop entries raw (i + 1) (working @ [p]) w1 = Returns (Some wl, w')"
        by (auto split: prod.splits bool.splits)
      moreover have "length (working @ [p]) \<le> 255" using short by simp
      ultimately have "wl = take 255 ((working @ [p])
          @ eligible_paths (drop (nat (i + 1)) (reported entries raw)))"
        using Suc.IH [OF n] by blast
      with True p show ?thesis
        by (simp add: step eligible_paths_Cons)
    qed
  qed
qed

lemma list_loop_total:
  "n = nat (raw - i) \<Longrightarrow> 0 \<le> i \<Longrightarrow> length working \<le> 255 \<Longrightarrow> faults w = [] \<Longrightarrow>
   raw \<le> int (length entries) \<Longrightarrow> \<forall>e \<in> set (reported entries raw). path e \<noteq> None \<Longrightarrow>
   list_loop entries raw i working w =
     Returns (Some (take 255 (working @ eligible_paths (drop (nat i) (reported entries raw)))), w)"
proof (induction n arbitrary: i working)
  case 0
  then have "\<not> i < raw" by simp
  with 0 show ?case by (simp add: list_loop_end reported_done eligible_paths_def)
next
  case (Suc n)
  then have lt: "i < raw" by simp
  show ?case
  proof (cases "length working \<ge> 255")
    case True
    with Suc.prems lt show ?thesis by (simp add: list_loop_full)
  next
    case False
    then have short: "length working < 255" by simp
    have in_range: "nat i < length entries"
      using Suc.prems lt by linarith
    note step = reported_step [OF Suc.prems(2) lt in_range]
    have "entries ! nat i \<in> set (reported entries raw)"
      using step by (metis in_set_dropD list.set_intros(1))
    then obtain p where p: "path (entries ! nat i) = Some p"
      using Suc.prems(6) by (cases "path (entries ! nat i)") auto
    have n: "n = nat (raw - (i + 1))" "0 \<le> i + 1"
      using Suc.prems by simp_all
    show ?thesis
    proof (cases "eligible (entries ! nat i)")
      case False
      with Suc.prems lt short in_range p
      have "list_loop entries raw i working w = list_loop entries raw (i + 1) working w"
        by (simp add: list_loop_skip)
      with Suc.IH [OF n Suc.prems(3-6)] False show ?thesis
        by (simp add: step eligible_paths_Cons)
    next
      case True
      with Suc.prems lt short in_range p
      have "list_loop entries raw i working w = list_loop entries raw (i + 1) (working @ [p]) w"
        by (simp add: list_loop_copy strdup_ok)
      moreover have "length (working @ [p]) \<le> 255" using short by simp
      ultimately show ?thesis
        using Suc.IH [OF n _ Suc.prems(4-6), of "working @ [p]"] True p
        by (simp add: step eligible_paths_Cons)
    qed
  qed
qed

lemma spec_listing_projection_eq:
  "spec_listing_projection es = take 255 (eligible_paths es)"
  by (simp add: spec_listing_projection_def eligible_paths_def MAX_ARCHIVE_DISPLAY_ITEMS_def take_map)

lemma length_spec_listing_projection:
  "length (spec_listing_projection es) = min (length (filter eligible es)) 255"
  by (simp add: spec_listing_projection_def MAX_ARCHIVE_DISPLAY_ITEMS_def)

lemma spec_listing_projection_root:
  "p \<in> set (spec_listing_projection es) \<Longrightarrow> CHR ''/'' \<notin> set p"
proof -
  assume "p \<in> set (spec_listing_projection es)"
  then obtain e where "e \<in> set (take MAX_ARCHIVE_DISPLAY_ITEMS (filter eligible es))" "p = the (path e)"
    by (auto simp: spec_listing_projection_def)
  then have "eligible e" "p = the (path e)"
    by (auto dest: in_set_takeD)
  then show ?thesis
    by (cases "path e") (auto simp: eligible_def)
qed

lemma list_loop_from_start:
  assumes "list_loop entries raw 0 [] w = Returns (Some wl, w')"
  shows "wl = spec_listing_projection (reported entries raw)"
  using list_loop_result [OF refl _ _ assms] by (simp add: spec_listing_projection_eq)

lemma list_loop_from_start_total:
  assumes "faults w = []" "raw \<le> int (length entries)"
    "\<forall>e \<in> set (reported entries raw). path e \<noteq> None"
  shows "list_loop entries raw 0 [] w =
           Returns (Some (spec_listing_projection (reported entries raw)), w)"
  using list_loop_total [OF refl _ _ assms, of 0 "[]"] by (simp add: spec_listing_projection_eq)

text \<open>
  C4: the listing projection.  Let the registry resolve the archive path to a handler
  with a lister, and let the lister return the entry array \<open>entries\<close> and the count
  \<open>raw\<close>.  Whenever \<^verbatim>\<open>archive_list_contents\<close> returns a list, that list is the
  specification's projection of the reported entries: the paths of the entries of kind
  file whose path has no \<open>/\<close>, in their original order, cut at 255; and the count it
  stores is the length of that list, which is the minimum of the number of eligible
  entries and 255.  When no allocation fails, the count does not exceed the array and
  no reported path is NULL, the call returns: that list with that count, or NULL with
  count 0 when no entry is eligible.
\<close>

theorem listing_projection:
  assumes "get_handler_for_file vt r (Some ap) = h" "h \<noteq> NULL"
    "list_contents (vt h) = Some lister" "lister ap w = ((Some entries, raw), w1)"
  shows "(\<forall>l c w'. archive_list_contents vt r (Some ap) c0 w = Returns ((Some l, c), w') \<longrightarrow>
            l = spec_listing_projection (reported entries raw)
            \<and> c = int (min (length (filter eligible (reported entries raw))) 255)
            \<and> c = int (length l)
            \<and> (\<forall>p \<in> set l. CHR ''/'' \<notin> set p))
       \<and> (faults w1 = [] \<and> raw \<le> int (length entries)
            \<and> (\<forall>e \<in> set (reported entries raw). path e \<noteq> None) \<longrightarrow>
            archive_list_contents vt r (Some ap) c0 w =
              Returns ((if filter eligible (reported entries raw) = [] then None
                        else Some (spec_listing_projection (reported entries raw)),
                        int (min (length (filter eligible (reported entries raw))) 255)), w1))"
proof (intro conjI allI impI)
  fix l c w'
  assume ret: "archive_list_contents vt r (Some ap) c0 w = Returns ((Some l, c), w')"
  then obtain w2 w3 where loop: "list_loop entries raw 0 [] w2 = Returns (Some l, w3)"
    and c: "c = int (length l)"
    using assms
    by (auto simp: archive_list_contents_def Let_def
        split: prod.splits bool.splits option.splits outcome.splits if_splits)
  from loop have l: "l = spec_listing_projection (reported entries raw)"
    by (rule list_loop_from_start)
  show "l = spec_listing_projection (reported entries raw)" by (fact l)
  show "c = int (length l)" by (fact c)
  show "c = int (min (length (filter eligible (reported entries raw))) 255)"
    using c l by (simp add: length_spec_listing_projection)
  show "\<forall>p \<in> set l. CHR ''/'' \<notin> set p"
    using l by (auto dest: spec_listing_projection_root)
next
  assume ok: "faults w1 = [] \<and> raw \<le> int (length entries)
            \<and> (\<forall>e \<in> set (reported entries raw). path e \<noteq> None)"
  then have loop: "list_loop entries raw 0 [] w1 =
           Returns (Some (spec_listing_projection (reported entries raw)), w1)"
    by (intro list_loop_from_start_total) simp_all
  have len: "length (spec_listing_projection (reported entries raw)) = 0
      \<longleftrightarrow> filter eligible (reported entries raw) = []"
    by (cases "filter eligible (reported entries raw)")
       (simp_all add: length_spec_listing_projection)
  show "archive_list_contents vt r (Some ap) c0 w =
              Returns ((if filter eligible (reported entries raw) = [] then None
                        else Some (spec_listing_projection (reported entries raw)),
                        int (min (length (filter eligible (reported entries raw))) 255)), w1)"
    using assms ok loop len
    by (simp add: archive_list_contents_def Let_def malloc_ok realloc_ok
        length_spec_listing_projection)
qed

theorem listing_projection_witness:
  "archive_list_contents demo_vt (register_archive_handler 5 initial_registry) (Some ''x.ssmc'') 0
     (demo_world demo_archive None [])
   = Returns ((Some (''a.txt'' # ''c.bin'' # replicate 253 ''z''), 255),
       demo_world demo_archive None [])"
proof -
  let ?w = "demo_world demo_archive None []"
  have h: "get_handler_for_file demo_vt (register_archive_handler 5 initial_registry)
      (Some ''x.ssmc'') = 5"
    by code_simp
  have nn: "(5::nat) \<noteq> NULL" by (simp add: NULL_def)
  have lc: "list_contents (demo_vt 5) = Some demo_lister" by (simp add: demo_vt_def)
  have run: "demo_lister ''x.ssmc'' ?w = ((Some demo_entries, 304), ?w)"
    by (simp add: demo_lister_def)
  have paths: "\<forall>e \<in> set (reported demo_entries 304). path e \<noteq> None"
    by code_simp
  have pre: "faults ?w = [] \<and> 304 \<le> int (length demo_entries)
      \<and> (\<forall>e \<in> set (reported demo_entries 304). path e \<noteq> None)"
    using paths by (simp add: demo_world_def demo_entries_def)
  have e1: "filter eligible (reported demo_entries 304) \<noteq> []"
    by code_simp
  have e2: "spec_listing_projection (reported demo_entries 304)
      = ''a.txt'' # ''c.bin'' # replicate 253 ''z''"
    by code_simp
  have e3: "int (min (length (filter eligible (reported demo_entries 304))) 255) = 255"
    by code_simp
  from listing_projection [OF h nn lc run, THEN conjunct2, rule_format, OF pre, of 0]
  show ?thesis
    by (simp only: e1 e2 e3 if_False)
qed

subsection \<open>The SSMC lister\<close>

lemma read_header_files: "read_header ss ap w = (r, w') \<Longrightarrow> files w' = files w"
  by (auto simp: read_header_def Let_def split: prod.splits option.splits if_splits
      dest!: fopen_rb_files fread_files)

lemma read_section_files: "read_section f off len w = (r, w') \<Longrightarrow> files w' = files w"
  by (auto simp: read_section_def split: prod.splits option.splits bool.splits
      dest!: malloc_files fseek_set_files fread_files)

lemma read_section_ok:
  "faults w = [] \<Longrightarrow> off + len \<le> length (content f) \<Longrightarrow>
   read_section f off len w = (Some (take len (drop off (content f))), w)"
  by (simp add: read_section_def malloc_ok fseek_set_ok fread_ok)

lemma read_header_ok:
  "faults w = [] \<Longrightarrow> files w p = Some bs \<Longrightarrow> sizeof_FileHeader ss \<le> length bs \<Longrightarrow>
   memcmp_eq (magic_num (header_of_bytes ss (take (sizeof_FileHeader ss) bs))) (MAGIC_NUMBER ss)
     (length (magic_num (header_of_bytes ss (take (sizeof_FileHeader ss) bs)))) \<Longrightarrow>
   read_header ss p w =
     (Some (\<lparr>content = bs, pos = 0\<rparr>, header_of_bytes ss (take (sizeof_FileHeader ss) bs)), w)"
  by (simp add: read_header_def fopen_rb_ok fread_ok Let_def)

lemma fill_item_list_files: "fill_item_list names i w = (r, w') \<Longrightarrow> files w' = files w"
proof (induction names arbitrary: i w r w')
  case Nil
  then show ?case by simp
next
  case (Cons n names)
  then show ?case
    by (auto split: prod.splits bool.splits option.splits dest!: strdup_files)
qed

lemma fill_item_list_Some:
  "fill_item_list names i w = (Some items, w') \<Longrightarrow>
   length items = length names
   \<and> (\<forall>k < length names.
         items ! k = \<lparr>path = Some (names ! k), entry_type = ARCHIVE_ENTRY_FILE, index = i + k\<rparr>)"
proof (induction names arbitrary: i w items w')
  case Nil
  then show ?case by simp
next
  case (Cons n names)
  from Cons.prems obtain w1 rest w2 where
    rest: "fill_item_list names (Suc i) w1 = (Some rest, w2)"
    and items: "items = \<lparr>path = Some n, entry_type = ARCHIVE_ENTRY_FILE, index = i\<rparr> # rest"
    by (auto split: prod.splits bool.splits option.splits)
  from Cons.IH [OF rest] have len: "length rest = length names"
    and nth: "\<And>k. k < length names \<Longrightarrow>
      rest ! k = \<lparr>path = Some (names ! k), entry_type = ARCHIVE_ENTRY_FILE, index = Suc i + k\<rparr>"
    by simp_all
  show ?case
  proof (intro conjI allI impI)
    show "length items = length (n # names)" using items len by simp
  next
    fix k assume "k < length (n # names)"
    then show "items ! k =
        \<lparr>path = Some ((n # names) ! k), entry_type = ARCHIVE_ENTRY_FILE, index = i + k\<rparr>"
      using items nth by (cases k) simp_all
  qed
qed

lemma fill_item_list_total:
  "faults w = [] \<Longrightarrow> \<exists>items. fill_item_list names i w = (Some items, w)"
proof (induction names arbitrary: i)
  case Nil
  then show ?case by simp
next
  case (Cons n names)
  from Cons.IH [OF Cons.prems, of "Suc i"] obtain rest where
    "fill_item_list names (Suc i) w = (Some rest, w)" by blast
  with Cons.prems show ?case by (simp add: strdup_ok)
qed

lemma length_big_manifest: "length big_manifest = 2147483648"
  by (simp only: big_manifest_def length_replicate)

lemma ssmc_list_contents_files:
  "ssmc_list_contents ss ap w = (rc, w') \<Longrightarrow> files w' = files w"
  by (auto simp: ssmc_list_contents_def Let_def
      split: prod.splits option.splits bool.splits if_splits
      dest!: read_header_files read_section_files malloc_files fill_item_list_files)

lemma ssmc_list_contents_Some:
  assumes "ssmc_list_contents ss ap w = ((Some items, c), w')"
  shows "\<exists>names. ((\<exists>buf ms. parse_file_metadata_u64 ss buf = Some ms \<and> names = map filename ms)
            \<or> (\<exists>buf ms. parse_file_metadata_u128 ss buf = Some ms \<and> names = map filename ms))
         \<and> c = cast_int (length names) \<and> c \<noteq> 0
         \<and> length items = length names
         \<and> (\<forall>k < length names.
               items ! k = \<lparr>path = Some (names ! k), entry_type = ARCHIVE_ENTRY_FILE, index = k\<rparr>)"
proof -
  from assms obtain names w3 where
    src: "(\<exists>buf ms. parse_file_metadata_u64 ss buf = Some ms \<and> names = map filename ms)
            \<or> (\<exists>buf ms. parse_file_metadata_u128 ss buf = Some ms \<and> names = map filename ms)"
    and fill: "fill_item_list names 0 w3 = (Some items, w')"
    and c: "c = cast_int (length names)" "c \<noteq> 0"
    unfolding ssmc_list_contents_def Let_def
    by (fastforce split: prod.splits option.splits bool.splits if_splits)
  from fill_item_list_Some [OF fill] src c show ?thesis
    by (intro exI [of _ names]) simp
qed

text \<open>
  C10, amended: count and result of the SSMC lister agree.  For every archive path and
  world, \<^verbatim>\<open>ssmc_list_contents\<close> returns NULL if and only if it stores 0 in
  \<^verbatim>\<open>*count\<close>, and it changes no file.  When it returns an entry array, the array has
  one entry per manifest record (of the width-specific decoder's result), entry \<open>k\<close>
  has the non-NULL path of record \<open>k\<close>, kind \<^verbatim>\<open>ARCHIVE_ENTRY_FILE\<close> and index \<open>k\<close>, and
  \<^verbatim>\<open>*count\<close> is the number of records converted to \<^verbatim>\<open>int\<close>, which is the number of
  records whenever there are fewer than \<open>2^31\<close> of them.
\<close>

theorem ssmc_list_count_coherence:
  assumes "ssmc_list_contents ss ap w = ((res, c), w')"
  shows "(res = None \<longleftrightarrow> c = 0)
    \<and> files w' = files w
    \<and> (\<forall>items. res = Some items \<longrightarrow>
         (\<exists>names. ((\<exists>buf ms. parse_file_metadata_u64 ss buf = Some ms \<and> names = map filename ms)
                  \<or> (\<exists>buf ms. parse_file_metadata_u128 ss buf = Some ms \<and> names = map filename ms))
            \<and> length items = length names
            \<and> c = cast_int (length names)
            \<and> (length names < 2147483648 \<longrightarrow> c = int (length names))
            \<and> (\<forall>k < length items.
                  path (items ! k) = Some (names ! k)
                  \<and> entry_type (items ! k) = ARCHIVE_ENTRY_FILE
                  \<and> index (items ! k) = k)))"
proof (intro conjI allI impI)
  show "res = None \<longleftrightarrow> c = 0"
  proof (cases res)
    case None
    with assms show ?thesis
      by (auto simp: ssmc_list_contents_def Let_def
          split: prod.splits option.splits bool.splits if_splits)
  next
    case (Some items)
    with assms ssmc_list_contents_Some [of ss ap w items c w'] show ?thesis by auto
  qed
next
  show "files w' = files w" using assms by (rule ssmc_list_contents_files)
next
  fix items assume "res = Some items"
  with assms have "ssmc_list_contents ss ap w = ((Some items, c), w')" by simp
  from ssmc_list_contents_Some [OF this] obtain names where
    n: "(\<exists>buf ms. parse_file_metadata_u64 ss buf = Some ms \<and> names = map filename ms)
            \<or> (\<exists>buf ms. parse_file_metadata_u128 ss buf = Some ms \<and> names = map filename ms)"
      "c = cast_int (length names)" "length items = length names"
      "\<forall>k < length names.
         items ! k = \<lparr>path = Some (names ! k), entry_type = ARCHIVE_ENTRY_FILE, index = k\<rparr>"
    by blast
  show "\<exists>names. ((\<exists>buf ms. parse_file_metadata_u64 ss buf = Some ms \<and> names = map filename ms)
                  \<or> (\<exists>buf ms. parse_file_metadata_u128 ss buf = Some ms \<and> names = map filename ms))
            \<and> length items = length names
            \<and> c = cast_int (length names)
            \<and> (length names < 2147483648 \<longrightarrow> c = int (length names))
            \<and> (\<forall>k < length items.
                  path (items ! k) = Some (names ! k)
                  \<and> entry_type (items ! k) = ARCHIVE_ENTRY_FILE
                  \<and> index (items ! k) = k)"
    using n by (intro exI [of _ names]) (simp add: cast_int_small)
qed

theorem ssmc_list_count_coherence_witness:
  "fst (ssmc_list_contents demo_ss ''x.ssmc'' (demo_world demo_archive None [])) =
     (Some [\<lparr>path = Some ''a.txt'', entry_type = ARCHIVE_ENTRY_FILE, index = 0\<rparr>,
            \<lparr>path = Some ''b.txt'', entry_type = ARCHIVE_ENTRY_FILE, index = 1\<rparr>], 2)
   \<and> files (snd (ssmc_list_contents demo_ss ''x.ssmc'' (demo_world demo_archive None [])))
       = files (demo_world demo_archive None [])
   \<and> fst (ssmc_list_contents demo_ss ''x.ssmc'' (demo_world demo_archive None [False, False, True]))
       = (None, 0)"
proof -
  let ?w = "demo_world demo_archive None []"
  have run: "fst (ssmc_list_contents demo_ss ''x.ssmc'' ?w) =
     (Some [\<lparr>path = Some ''a.txt'', entry_type = ARCHIVE_ENTRY_FILE, index = 0\<rparr>,
            \<lparr>path = Some ''b.txt'', entry_type = ARCHIVE_ENTRY_FILE, index = 1\<rparr>], 2)"
    by code_simp
  have run2: "fst (ssmc_list_contents demo_ss ''x.ssmc''
      (demo_world demo_archive None [False, False, True])) = (None, 0)"
    by code_simp
  have "files (snd (ssmc_list_contents demo_ss ''x.ssmc'' ?w)) = files ?w"
    using ssmc_list_count_coherence [of demo_ss "''x.ssmc''" ?w
        "fst (fst (ssmc_list_contents demo_ss ''x.ssmc'' ?w))"
        "snd (fst (ssmc_list_contents demo_ss ''x.ssmc'' ?w))"
        "snd (ssmc_list_contents demo_ss ''x.ssmc'' ?w)"]
    by simp
  with run run2 show ?thesis by (intro conjI)
qed

text \<open>
  C10, as stated: when the lister returns an array, \<^verbatim>\<open>*count\<close> equals the number of
  manifest records.  Line 139 stores \<^verbatim>\<open>(int)manifest_len\<close>: for a manifest of \<open>2^31\<close>
  records the returned array has \<open>2^31\<close> entries and the stored count is \<open>- 2^31\<close>.
\<close>

theorem ssmc_list_count_truncated:
  "map_option length
     (fst (fst (ssmc_list_contents big_ss ''x.ssmc'' (demo_world demo_archive None []))))
     = Some 2147483648
   \<and> snd (fst (ssmc_list_contents big_ss ''x.ssmc'' (demo_world demo_archive None [])))
     = - 2147483648"
proof -
  let ?w = "demo_world demo_archive None []"
  have fw: "faults ?w = []" by (simp add: demo_world_def)
  obtain items where fill: "fill_item_list (map filename big_manifest) 0 ?w = (Some items, ?w)"
    using fill_item_list_total [OF fw] by blast
  from fill_item_list_Some [OF fill] have len: "length items = 2147483648"
    by (simp add: length_big_manifest)
  have fx: "files ?w ''x.ssmc'' = Some demo_archive" by (simp add: demo_world_def)
  have sz: "sizeof_FileHeader big_ss = 2" by (simp add: big_ss_def demo_ss_def)
  have hb: "header_of_bytes big_ss (take 2 demo_archive) =
      \<lparr>magic_num = [83], hash_type = 1, man_offset = 2, man_length = 1, dict_offset = 3,
        dict_length = 1, chunk_index_offset = 4, chunk_index_length = 1, data_offset = 5\<rparr>"
    by (simp add: big_ss_def demo_ss_def demo_archive_def)
  have hdr: "read_header big_ss ''x.ssmc'' ?w =
      (Some (\<lparr>content = demo_archive, pos = 0\<rparr>, header_of_bytes big_ss (take 2 demo_archive)), ?w)"
    using read_header_ok [OF fw fx, of big_ss]
    by (simp add: sz hb memcmp_eq_def) (simp add: big_ss_def demo_ss_def demo_archive_def)
  have sec: "read_section \<lparr>content = demo_archive, pos = 0\<rparr> 2 (Suc 0) ?w = (Some [1], ?w)"
    using read_section_ok [OF fw, of 2 "Suc 0" "\<lparr>content = demo_archive, pos = 0\<rparr>"]
    by (simp add: demo_archive_def)
  have parse: "parse_file_metadata_u64 big_ss [1] = Some big_manifest"
    by (simp add: big_ss_def)
  have "ssmc_list_contents big_ss ''x.ssmc'' ?w = ((Some items, - 2147483648), ?w)"
    by (simp add: ssmc_list_contents_def hdr hb sec parse Let_def length_big_manifest
        malloc_ok [OF fw] fill cast_int_big)
  with len show ?thesis by simp
qed

subsection \<open>Loading: header, magic number and sections\<close>

lemma memcmp_magic: "memcmp_eq (magic_num h) (MAGIC_NUMBER ss) (length (magic_num h)) = magic_ok ss h"
  by (simp add: memcmp_eq_def magic_ok_def)

lemma read_header_Some:
  assumes "read_header ss ap w = (Some (f, h), w')"
  shows "\<exists>bs. files w ap = Some bs \<and> f = \<lparr>content = bs, pos = 0\<rparr>
           \<and> sizeof_FileHeader ss \<le> length bs \<and> h = header_of_archive ss bs \<and> magic_ok ss h"
proof -
  from assms obtain f0 w1 hb w2 where
    o: "fopen_rb ap w = (Some f0, w1)" and r: "fread (sizeof_FileHeader ss) f0 w1 = (Some hb, w2)"
    and m: "magic_ok ss (header_of_bytes ss hb)" and e: "f = f0" "h = header_of_bytes ss hb"
    by (auto simp: read_header_def Let_def memcmp_magic
        split: prod.splits option.splits if_splits)
  from fopen_rb_Some [OF o] obtain bs where bs: "files w ap = Some bs" "f0 = \<lparr>content = bs, pos = 0\<rparr>"
    by blast
  from fread_Some [OF r] bs have "sizeof_FileHeader ss \<le> length bs" "hb = take (sizeof_FileHeader ss) bs"
    by auto
  with bs m e show ?thesis by (simp add: header_of_archive_def)
qed

lemma read_section_Some:
  assumes "read_section f off len w = (Some buf, w')"
  shows "(len = 0 \<or> off + len \<le> length (content f)) \<and> buf = section_bytes (content f) off len"
proof -
  from assms obtain w1 f' w2 where
    s: "fseek_set f off w1 = (Some f', w2)" and r: "fread len f' w2 = (Some buf, w')"
    by (auto simp: read_section_def split: prod.splits option.splits bool.splits)
  from fseek_set_Some [OF s] fread_Some [OF r] show ?thesis
    by (simp add: section_bytes_def)
qed

lemma ssmc_extract_file_load:
  assumes "ssmc_extract_file ss ap nm idx dir w = (res, w')"
  shows "(res = None \<and> files w' = files w)
       \<or> (\<exists>bs h w4. files w ap = Some bs \<and> h = header_of_archive ss bs
             \<and> sizeof_FileHeader ss \<le> length bs \<and> magic_ok ss h \<and> files w4 = files w
             \<and> (hash_type h = 1 \<or> hash_type h = 2)
             \<and> (hash_type h = 1 \<longrightarrow>
                  extract_u64 ss \<lparr>content = bs, pos = 0\<rparr> h
                    (section_bytes bs (man_offset h) (man_length h))
                    (section_bytes bs (chunk_index_offset h) (chunk_index_length h))
                    (section_bytes bs (dict_offset h) (dict_length h)) nm idx dir w4 = (res, w'))
             \<and> (hash_type h \<noteq> 1 \<longrightarrow>
                  extract_u128 ss \<lparr>content = bs, pos = 0\<rparr> h
                    (section_bytes bs (man_offset h) (man_length h))
                    (section_bytes bs (chunk_index_offset h) (chunk_index_length h))
                    (section_bytes bs (dict_offset h) (dict_length h)) nm idx dir w4 = (res, w')))"
proof (cases "read_header ss ap w")
  case (Pair rh w1)
  note rh = Pair
  show ?thesis
  proof (cases rh)
    case None
    with rh assms show ?thesis
      by (auto simp: ssmc_extract_file_def dest: read_header_files)
  next
    case (Some fh)
    obtain f h where fh: "fh = (f, h)" by (cases fh)
    from rh Some fh have hdr: "read_header ss ap w = (Some (f, h), w1)" by simp
    from read_header_Some [OF hdr] obtain bs where bs: "files w ap = Some bs"
      "f = \<lparr>content = bs, pos = 0\<rparr>" "sizeof_FileHeader ss \<le> length bs"
      "h = header_of_archive ss bs" "magic_ok ss h" by blast
    have f1: "files w1 = files w" using hdr by (rule read_header_files)
    obtain r2 w2 where s2: "read_section f (man_offset h) (man_length h) w1 = (r2, w2)"
      by (cases "read_section f (man_offset h) (man_length h) w1")
    have f2: "files w2 = files w" using read_section_files [OF s2] f1 by simp
    show ?thesis
    proof (cases r2)
      case None
      with assms hdr s2 f2 show ?thesis by (simp add: ssmc_extract_file_def)
    next
      case man: (Some manifest_buf)
      obtain r3 w3 where s3: "read_section f (chunk_index_offset h) (chunk_index_length h) w2 = (r3, w3)"
        by (cases "read_section f (chunk_index_offset h) (chunk_index_length h) w2")
      have f3: "files w3 = files w" using read_section_files [OF s3] f2 by simp
      show ?thesis
      proof (cases r3)
        case None
        with assms hdr s2 man s3 f3 show ?thesis by (simp add: ssmc_extract_file_def)
      next
        case ci: (Some chunk_index_buf)
        obtain r4 w4 where s4: "read_section f (dict_offset h) (dict_length h) w3 = (r4, w4)"
          by (cases "read_section f (dict_offset h) (dict_length h) w3")
        have f4: "files w4 = files w" using read_section_files [OF s4] f3 by simp
        show ?thesis
        proof (cases r4)
          case None
          with assms hdr s2 man s3 ci s4 f4 show ?thesis by (simp add: ssmc_extract_file_def)
        next
          case dict: (Some dictionary_buf)
          have bufs: "manifest_buf = section_bytes bs (man_offset h) (man_length h)"
            "chunk_index_buf = section_bytes bs (chunk_index_offset h) (chunk_index_length h)"
            "dictionary_buf = section_bytes bs (dict_offset h) (dict_length h)"
            using read_section_Some [OF s2 [unfolded man]] read_section_Some [OF s3 [unfolded ci]]
              read_section_Some [OF s4 [unfolded dict]] bs(2)
            by simp_all
          have run: "(res, w') =
              (if hash_type h = 1
               then extract_u64 ss f h manifest_buf chunk_index_buf dictionary_buf nm idx dir w4
               else if hash_type h = 2
               then extract_u128 ss f h manifest_buf chunk_index_buf dictionary_buf nm idx dir w4
               else (None, w4))"
            using assms hdr s2 man s3 ci s4 dict by (simp add: ssmc_extract_file_def)
          show ?thesis
          proof (cases "hash_type h = 1 \<or> hash_type h = 2")
            case False
            with run f4 show ?thesis by simp
          next
            case True
            with run bs bufs f4 show ?thesis
              by (intro disjI2 exI [of _ bs] exI [of _ h] exI [of _ w4]) auto
          qed
        qed
      qed
    qed
  qed
qed

lemma fill_item_list_entries:
  "fill_item_list names i w = (Some items, w') \<Longrightarrow>
   items = map (\<lambda>(k, n). \<lparr>path = Some n, entry_type = ARCHIVE_ENTRY_FILE, index = k\<rparr>)
             (enumerate i names)"
proof (induction names arbitrary: i w items w')
  case Nil
  then show ?case by simp
next
  case (Cons n names)
  from Cons.prems obtain w1 rest w2 where
    rest: "fill_item_list names (Suc i) w1 = (Some rest, w2)"
    and items: "items = \<lparr>path = Some n, entry_type = ARCHIVE_ENTRY_FILE, index = i\<rparr> # rest"
    by (auto split: prod.splits bool.splits option.splits)
  from Cons.IH [OF rest] items show ?case by simp
qed

lemma ssmc_list_contents_load:
  assumes "ssmc_list_contents ss ap w = ((res, c), w')"
  shows "(res = None \<and> c = 0)
       \<or> (\<exists>bs h names. files w ap = Some bs \<and> h = header_of_archive ss bs
             \<and> sizeof_FileHeader ss \<le> length bs \<and> magic_ok ss h
             \<and> (hash_type h = 1 \<or> hash_type h = 2)
             \<and> (hash_type h = 1 \<longrightarrow>
                  map_option (map filename)
                    (parse_file_metadata_u64 ss (section_bytes bs (man_offset h) (man_length h)))
                  = Some names)
             \<and> (hash_type h \<noteq> 1 \<longrightarrow>
                  map_option (map filename)
                    (parse_file_metadata_u128 ss (section_bytes bs (man_offset h) (man_length h)))
                  = Some names)
             \<and> names \<noteq> [] \<and> res = Some (entries_of names)
             \<and> c = cast_int (length names) \<and> c \<noteq> 0)"
proof (cases res)
  case None
  with assms show ?thesis
    by (auto simp: ssmc_list_contents_def Let_def
        split: prod.splits option.splits bool.splits if_splits)
next
  case (Some items)
  from assms Some obtain f h w1 manifest_buffer w2 names w3 where
    hdr: "read_header ss ap w = (Some (f, h), w1)"
    and sec: "read_section f (man_offset h) (man_length h) w1 = (Some manifest_buffer, w2)"
    and names: "(if hash_type h = 1
           then map_option (map filename) (parse_file_metadata_u64 ss manifest_buffer)
           else if hash_type h = 2
           then map_option (map filename) (parse_file_metadata_u128 ss manifest_buffer)
           else None) = Some names"
    and ne: "names \<noteq> []"
    and fill: "fill_item_list names 0 w3 = (Some items, w')"
    and c: "c = cast_int (length names)" "c \<noteq> 0"
    unfolding ssmc_list_contents_def Let_def
    by (fastforce split: prod.splits option.splits bool.splits if_splits)
  from read_header_Some [OF hdr] obtain bs where bs: "files w ap = Some bs"
    "f = \<lparr>content = bs, pos = 0\<rparr>" "sizeof_FileHeader ss \<le> length bs"
    "h = header_of_archive ss bs" "magic_ok ss h" by blast
  from read_section_Some [OF sec] bs(2)
  have buf: "manifest_buffer = section_bytes bs (man_offset h) (man_length h)" by simp
  from fill_item_list_entries [OF fill] have items: "items = entries_of names"
    by (simp add: entries_of_def)
  from names have ht: "hash_type h = 1 \<or> hash_type h = 2"
    by (auto split: if_splits)
  from names buf have n1: "hash_type h = 1 \<longrightarrow>
      map_option (map filename)
        (parse_file_metadata_u64 ss (section_bytes bs (man_offset h) (man_length h))) = Some names"
    by (auto split: if_splits)
  from names buf ht have n2: "hash_type h \<noteq> 1 \<longrightarrow>
      map_option (map filename)
        (parse_file_metadata_u128 ss (section_bytes bs (man_offset h) (man_length h))) = Some names"
    by (auto split: if_splits)
  from bs ht n1 n2 ne items c Some show ?thesis
    by (intro disjI2 exI [of _ bs] exI [of _ h] exI [of _ names]) simp
qed

text \<open>
  C5: for every archive file whose header's magic-number bytes differ from
  \<^verbatim>\<open>MAGIC_NUMBER\<close>, in every world (whatever fails or not), \<^verbatim>\<open>ssmc_list_contents\<close>
  returns NULL with count 0 and \<^verbatim>\<open>ssmc_extract_file\<close> returns NULL, and after either
  call the files on disk are exactly those before it: no output file is created and
  nothing is removed or written.
\<close>

theorem magic_mismatch_rejected:
  assumes "files w ap = Some bs" "\<not> magic_ok ss (header_of_archive ss bs)"
  shows "fst (ssmc_list_contents ss ap w) = (None, 0)
       \<and> files (snd (ssmc_list_contents ss ap w)) = files w
       \<and> fst (ssmc_extract_file ss ap nm idx dir w) = None
       \<and> files (snd (ssmc_extract_file ss ap nm idx dir w)) = files w"
proof -
  obtain res c w1 where l: "ssmc_list_contents ss ap w = ((res, c), w1)"
    by (cases "ssmc_list_contents ss ap w") auto
  obtain r w2 where e: "ssmc_extract_file ss ap nm idx dir w = (r, w2)"
    by (cases "ssmc_extract_file ss ap nm idx dir w")
  from ssmc_list_contents_load [OF l] assms have "res = None \<and> c = 0" by auto
  moreover from ssmc_list_contents_files [OF l] have "files w1 = files w" .
  moreover from ssmc_extract_file_load [OF e] assms have "r = None \<and> files w2 = files w" by auto
  ultimately show ?thesis by (simp add: l e)
qed

theorem magic_mismatch_rejected_witness:
  "fst (ssmc_list_contents demo_ss ''x.ssmc''
          (demo_world [84, 1, 1, 9, 7, 1, 2, 3, 4, 5] (Some [42]) [])) = (None, 0)
   \<and> fst (ssmc_extract_file demo_ss ''x.ssmc'' (Some ''a.txt'') 0 ''out''
          (demo_world [84, 1, 1, 9, 7, 1, 2, 3, 4, 5] (Some [42]) [])) = None
   \<and> files (snd (ssmc_extract_file demo_ss ''x.ssmc'' (Some ''a.txt'') 0 ''out''
          (demo_world [84, 1, 1, 9, 7, 1, 2, 3, 4, 5] (Some [42]) [])))
       = files (demo_world [84, 1, 1, 9, 7, 1, 2, 3, 4, 5] (Some [42]) [])"
proof -
  let ?bs = "[84, 1, 1, 9, 7, 1, 2, 3, 4, 5] :: byte list"
  let ?w = "demo_world ?bs (Some [42]) []"
  have f: "files ?w ''x.ssmc'' = Some ?bs" by (simp add: demo_world_def)
  have m: "\<not> magic_ok demo_ss (header_of_archive demo_ss ?bs)"
    by (simp add: magic_ok_def header_of_archive_def demo_ss_def)
  from magic_mismatch_rejected [OF f m, of "Some ''a.txt''" 0 "''out''"] show ?thesis
    by simp
qed

subsection \<open>Digest width and empty manifests\<close>

lemma fill_item_list_ok:
  assumes "faults w = []"
  shows "fill_item_list names 0 w = (Some (entries_of names), w)"
proof -
  from fill_item_list_total [OF assms] obtain items where
    f: "fill_item_list names 0 w = (Some items, w)" by blast
  from fill_item_list_entries [OF f] f show ?thesis by (simp add: entries_of_def)
qed

lemma read_header_ok':
  "faults w = [] \<Longrightarrow> files w ap = Some bs \<Longrightarrow> sizeof_FileHeader ss \<le> length bs \<Longrightarrow>
   magic_ok ss (header_of_archive ss bs) \<Longrightarrow>
   read_header ss ap w = (Some (\<lparr>content = bs, pos = 0\<rparr>, header_of_archive ss bs), w)"
  using read_header_ok [of w ap bs ss] by (simp add: header_of_archive_def memcmp_magic)

lemma read_section_ok':
  "faults w = [] \<Longrightarrow> off + len \<le> length bs \<Longrightarrow>
   read_section \<lparr>content = bs, pos = 0\<rparr> off len w = (Some (section_bytes bs off len), w)"
  using read_section_ok [of w off len "\<lparr>content = bs, pos = 0\<rparr>"] by (simp add: section_bytes_def)

lemma resolve_target_Nil: "resolve_target [] nm idx = None"
  by (simp add: resolve_target_def split: option.splits)

text \<open>
  C6: the digest width is a closed two-way choice.  For every archive whose header's
  \<^verbatim>\<open>hash_type\<close> is neither 1 nor 2, \<^verbatim>\<open>ssmc_list_contents\<close> returns NULL with count 0
  and \<^verbatim>\<open>ssmc_extract_file\<close> returns NULL, and no file changes.  When the header and
  the three sections load (no library call fails, the magic number matches, the
  sections lie within the file), selector 1 makes the extractor the call of
  \<^verbatim>\<open>extract_u64\<close> on the loaded sections and the lister the entries of the manifest
  decoded by \<^verbatim>\<open>parse_file_metadata_u64\<close>, and selector 2 the same with
  \<^verbatim>\<open>extract_u128\<close> and \<^verbatim>\<open>parse_file_metadata_u128\<close>.
\<close>

theorem digest_width_dispatch:
  assumes "files w ap = Some bs" "h = header_of_archive ss bs"
    "man = section_bytes bs (man_offset h) (man_length h)"
    "ci = section_bytes bs (chunk_index_offset h) (chunk_index_length h)"
    "dict = section_bytes bs (dict_offset h) (dict_length h)"
  shows "(hash_type h \<noteq> 1 \<and> hash_type h \<noteq> 2 \<longrightarrow>
            fst (ssmc_list_contents ss ap w) = (None, 0)
            \<and> files (snd (ssmc_list_contents ss ap w)) = files w
            \<and> fst (ssmc_extract_file ss ap nm idx dir w) = None
            \<and> files (snd (ssmc_extract_file ss ap nm idx dir w)) = files w)
       \<and> (faults w = [] \<and> sizeof_FileHeader ss \<le> length bs \<and> magic_ok ss h
            \<and> man_offset h + man_length h \<le> length bs
            \<and> chunk_index_offset h + chunk_index_length h \<le> length bs
            \<and> dict_offset h + dict_length h \<le> length bs \<longrightarrow>
            (hash_type h = 1 \<longrightarrow>
               ssmc_extract_file ss ap nm idx dir w =
                 extract_u64 ss \<lparr>content = bs, pos = 0\<rparr> h man ci dict nm idx dir w
               \<and> fst (ssmc_list_contents ss ap w) =
                 (case parse_file_metadata_u64 ss man of
                    None \<Rightarrow> (None, 0)
                  | Some ms \<Rightarrow>
                      if cast_int (length ms) = 0 then (None, 0)
                      else (Some (entries_of (map filename ms)), cast_int (length ms))))
            \<and> (hash_type h = 2 \<longrightarrow>
               ssmc_extract_file ss ap nm idx dir w =
                 extract_u128 ss \<lparr>content = bs, pos = 0\<rparr> h man ci dict nm idx dir w
               \<and> fst (ssmc_list_contents ss ap w) =
                 (case parse_file_metadata_u128 ss man of
                    None \<Rightarrow> (None, 0)
                  | Some ms \<Rightarrow>
                      if cast_int (length ms) = 0 then (None, 0)
                      else (Some (entries_of (map filename ms)), cast_int (length ms)))))"
proof (intro conjI impI)
  assume bad: "hash_type h \<noteq> 1 \<and> hash_type h \<noteq> 2"
  obtain res c w1 where l: "ssmc_list_contents ss ap w = ((res, c), w1)"
    by (cases "ssmc_list_contents ss ap w") auto
  obtain r w2 where e: "ssmc_extract_file ss ap nm idx dir w = (r, w2)"
    by (cases "ssmc_extract_file ss ap nm idx dir w")
  from ssmc_list_contents_load [OF l] assms(1,2) bad have "res = None \<and> c = 0" by auto
  then show "fst (ssmc_list_contents ss ap w) = (None, 0)" by (simp add: l)
  show "files (snd (ssmc_list_contents ss ap w)) = files w"
    using ssmc_list_contents_files [OF l] by (simp add: l)
  from ssmc_extract_file_load [OF e] assms(1,2) bad have "r = None \<and> files w2 = files w" by auto
  then show "fst (ssmc_extract_file ss ap nm idx dir w) = None"
    "files (snd (ssmc_extract_file ss ap nm idx dir w)) = files w"
    by (simp_all add: e)
next
  assume ok: "faults w = [] \<and> sizeof_FileHeader ss \<le> length bs \<and> magic_ok ss h
            \<and> man_offset h + man_length h \<le> length bs
            \<and> chunk_index_offset h + chunk_index_length h \<le> length bs
            \<and> dict_offset h + dict_length h \<le> length bs"
  then have hdr: "read_header ss ap w = (Some (\<lparr>content = bs, pos = 0\<rparr>, h), w)"
    using assms(1,2) by (simp add: read_header_ok')
  have s1: "read_section \<lparr>content = bs, pos = 0\<rparr> (man_offset h) (man_length h) w = (Some man, w)"
    and s2: "read_section \<lparr>content = bs, pos = 0\<rparr> (chunk_index_offset h)
        (chunk_index_length h) w = (Some ci, w)"
    and s3: "read_section \<lparr>content = bs, pos = 0\<rparr> (dict_offset h) (dict_length h) w = (Some dict, w)"
    using ok assms(3-5) by (simp_all add: read_section_ok')
  have fw: "faults w = []" using ok by simp
  {
    assume one: "hash_type h = 1"
    show "ssmc_extract_file ss ap nm idx dir w =
                 extract_u64 ss \<lparr>content = bs, pos = 0\<rparr> h man ci dict nm idx dir w"
      by (simp add: ssmc_extract_file_def hdr s1 s2 s3 one)
    show "fst (ssmc_list_contents ss ap w) =
                 (case parse_file_metadata_u64 ss man of
                    None \<Rightarrow> (None, 0)
                  | Some ms \<Rightarrow>
                      if cast_int (length ms) = 0 then (None, 0)
                      else (Some (entries_of (map filename ms)), cast_int (length ms)))"
      by (cases "parse_file_metadata_u64 ss man")
         (auto simp: ssmc_list_contents_def hdr s1 one Let_def malloc_ok [OF fw]
           fill_item_list_ok [OF fw] cast_int_def)
  }
  {
    assume two: "hash_type h = 2"
    show "ssmc_extract_file ss ap nm idx dir w =
                 extract_u128 ss \<lparr>content = bs, pos = 0\<rparr> h man ci dict nm idx dir w"
      by (simp add: ssmc_extract_file_def hdr s1 s2 s3 two)
    show "fst (ssmc_list_contents ss ap w) =
                 (case parse_file_metadata_u128 ss man of
                    None \<Rightarrow> (None, 0)
                  | Some ms \<Rightarrow>
                      if cast_int (length ms) = 0 then (None, 0)
                      else (Some (entries_of (map filename ms)), cast_int (length ms)))"
      by (cases "parse_file_metadata_u128 ss man")
         (auto simp: ssmc_list_contents_def hdr s1 two Let_def malloc_ok [OF fw]
           fill_item_list_ok [OF fw] cast_int_def)
  }
qed

text \<open>
  C9: a manifest of zero records is rejected.  For every archive whose manifest
  section decodes (by the decoder of its digest width) to no record,
  \<^verbatim>\<open>ssmc_list_contents\<close> returns NULL with count 0, \<^verbatim>\<open>ssmc_extract_file\<close> returns
  NULL for every requested name and index, and no file is created or changed.
\<close>

theorem zero_records_rejected:
  assumes "files w ap = Some bs" "h = header_of_archive ss bs"
    "man = section_bytes bs (man_offset h) (man_length h)"
    "hash_type h = 1 \<longrightarrow> parse_file_metadata_u64 ss man = Some []"
    "hash_type h = 2 \<longrightarrow> parse_file_metadata_u128 ss man = Some []"
  shows "fst (ssmc_list_contents ss ap w) = (None, 0)
       \<and> files (snd (ssmc_list_contents ss ap w)) = files w
       \<and> fst (ssmc_extract_file ss ap nm idx dir w) = None
       \<and> files (snd (ssmc_extract_file ss ap nm idx dir w)) = files w"
proof -
  obtain res c w1 where l: "ssmc_list_contents ss ap w = ((res, c), w1)"
    by (cases "ssmc_list_contents ss ap w") auto
  obtain r w2 where e: "ssmc_extract_file ss ap nm idx dir w = (r, w2)"
    by (cases "ssmc_extract_file ss ap nm idx dir w")
  from ssmc_list_contents_load [OF l] assms have "res = None \<and> c = 0" by auto
  moreover from ssmc_list_contents_files [OF l] have "files w1 = files w" .
  moreover have "r = None \<and> files w2 = files w"
  proof -
    from ssmc_extract_file_load [OF e] consider
      "r = None \<and> files w2 = files w"
      | w4 where "files w4 = files w" "hash_type h = 1"
          "extract_u64 ss \<lparr>content = bs, pos = 0\<rparr> h man
             (section_bytes bs (chunk_index_offset h) (chunk_index_length h))
             (section_bytes bs (dict_offset h) (dict_length h)) nm idx dir w4 = (r, w2)"
      | w4 where "files w4 = files w" "hash_type h = 2"
          "extract_u128 ss \<lparr>content = bs, pos = 0\<rparr> h man
             (section_bytes bs (chunk_index_offset h) (chunk_index_length h))
             (section_bytes bs (dict_offset h) (dict_length h)) nm idx dir w4 = (r, w2)"
      using assms(1-3) by auto
    then show ?thesis
    proof cases
      case 1
      then show ?thesis .
    next
      case 2
      with assms(4) show ?thesis
        by (simp add: extract_u64_def extract_body_unresolved resolve_target_Nil)
    next
      case 3
      with assms(5) show ?thesis
        by (simp add: extract_u128_def extract_body_unresolved resolve_target_Nil)
    qed
  qed
  ultimately show ?thesis by (simp add: l e)
qed

theorem digest_width_dispatch_witness:
  "fst (ssmc_list_contents demo_ss ''x.ssmc''
          (demo_world [83, 3, 1, 9, 7, 1, 2, 3, 4, 5] None [])) = (None, 0)
   \<and> fst (ssmc_extract_file demo_ss ''x.ssmc'' None 0 ''out''
          (demo_world [83, 3, 1, 9, 7, 1, 2, 3, 4, 5] None [])) = None
   \<and> ssmc_extract_file demo_ss ''x.ssmc'' None 0 ''out'' (demo_world demo_archive None [])
       = extract_u64 demo_ss \<lparr>content = demo_archive, pos = 0\<rparr>
           (header_of_archive demo_ss demo_archive) [1] [7] [9] None 0 ''out''
           (demo_world demo_archive None [])
   \<and> fst (ssmc_list_contents demo_ss ''x.ssmc'' (demo_world demo_archive None []))
       = (Some (entries_of [''a.txt'', ''b.txt'']), 2)"
proof -
  let ?bad = "[83, 3, 1, 9, 7, 1, 2, 3, 4, 5] :: byte list"
  let ?wb = "demo_world ?bad None []"
  let ?w = "demo_world demo_archive None []"
  let ?h = "header_of_archive demo_ss demo_archive"
  have fb: "files ?wb ''x.ssmc'' = Some ?bad" by (simp add: demo_world_def)
  have hb: "hash_type (header_of_archive demo_ss ?bad) \<noteq> 1
      \<and> hash_type (header_of_archive demo_ss ?bad) \<noteq> 2"
    by (simp add: header_of_archive_def demo_ss_def)
  note B = digest_width_dispatch [OF fb refl refl refl refl, THEN conjunct1, rule_format, OF hb]
  have f: "files ?w ''x.ssmc'' = Some demo_archive" by (simp add: demo_world_def)
  have h: "?h = \<lparr>magic_num = [83], hash_type = 1, man_offset = 2, man_length = 1, dict_offset = 3,
        dict_length = 1, chunk_index_offset = 4, chunk_index_length = 1, data_offset = 5\<rparr>"
    by (simp add: header_of_archive_def demo_ss_def demo_archive_def)
  have ok: "faults ?w = [] \<and> sizeof_FileHeader demo_ss \<le> length demo_archive \<and> magic_ok demo_ss ?h
            \<and> man_offset ?h + man_length ?h \<le> length demo_archive
            \<and> chunk_index_offset ?h + chunk_index_length ?h \<le> length demo_archive
            \<and> dict_offset ?h + dict_length ?h \<le> length demo_archive"
    unfolding h by (simp add: demo_world_def demo_ss_def demo_archive_def magic_ok_def)
  have one: "hash_type ?h = 1" unfolding h by simp
  have secs: "section_bytes demo_archive (man_offset ?h) (man_length ?h) = [1]"
    "section_bytes demo_archive (chunk_index_offset ?h) (chunk_index_length ?h) = [7]"
    "section_bytes demo_archive (dict_offset ?h) (dict_length ?h) = [9]"
    unfolding h by (simp_all add: section_bytes_def demo_archive_def)
  note G = digest_width_dispatch [OF f refl refl refl refl, THEN conjunct2, rule_format, OF ok,
      THEN conjunct1, rule_format, OF one, unfolded secs]
  have p: "parse_file_metadata_u64 demo_ss [1] = Some demo_manifest"
    by (simp add: demo_ss_def)
  have c: "cast_int (length demo_manifest) = 2"
    by (simp add: demo_manifest_def cast_int_def)
  have n: "map filename demo_manifest = [''a.txt'', ''b.txt'']"
    by (simp add: demo_manifest_def)
  have l: "fst (ssmc_list_contents demo_ss ''x.ssmc'' ?w) = (Some (entries_of [''a.txt'', ''b.txt'']), 2)"
    using G [THEN conjunct2] by (simp add: p c n)
  from B [of None 0 "''out''"] G [THEN conjunct1, of None 0 "''out''"] l show ?thesis
    by simp
qed

theorem zero_records_rejected_witness:
  "fst (ssmc_list_contents demo_ss ''x.ssmc''
          (demo_world [83, 1, 0, 9, 7, 1, 2, 3, 4, 5] None [])) = (None, 0)
   \<and> fst (ssmc_extract_file demo_ss ''x.ssmc'' (Some ''a.txt'') 0 ''out''
          (demo_world [83, 1, 0, 9, 7, 1, 2, 3, 4, 5] None [])) = None
   \<and> files (snd (ssmc_extract_file demo_ss ''x.ssmc'' (Some ''a.txt'') 0 ''out''
          (demo_world [83, 1, 0, 9, 7, 1, 2, 3, 4, 5] None [])))
       = files (demo_world [83, 1, 0, 9, 7, 1, 2, 3, 4, 5] None [])"
proof -
  let ?bs = "[83, 1, 0, 9, 7, 1, 2, 3, 4, 5] :: byte list"
  let ?w = "demo_world ?bs None []"
  let ?h = "header_of_archive demo_ss ?bs"
  have f: "files ?w ''x.ssmc'' = Some ?bs" by (simp add: demo_world_def)
  have p64: "hash_type ?h = 1 \<longrightarrow>
      parse_file_metadata_u64 demo_ss (section_bytes ?bs (man_offset ?h) (man_length ?h)) = Some []"
    by (simp add: header_of_archive_def demo_ss_def section_bytes_def)
  have p128: "hash_type ?h = 2 \<longrightarrow>
      parse_file_metadata_u128 demo_ss (section_bytes ?bs (man_offset ?h) (man_length ?h)) = Some []"
    by (simp add: header_of_archive_def demo_ss_def section_bytes_def)
  from zero_records_rejected [OF f refl refl p64 p128, of "Some ''a.txt''" 0 "''out''"]
  show ?thesis by simp
qed

subsection \<open>Extraction: no partial output\<close>

lemma after_calls_files [simp]: "files (after_calls n w) = files w"
  by (simp add: after_calls_def)

lemma after_calls_remove_faults [simp]: "remove_faults (after_calls n w) = remove_faults w"
  by (simp add: after_calls_def)

lemma after_calls_faults [simp]: "faults (after_calls n w) = drop n (faults w)"
  by (simp add: after_calls_def)


lemma remove_succeeds_after_calls [simp]: "remove_succeeds (after_calls n w) = remove_succeeds w"
  by (simp add: remove_succeeds_def)





lemma fault_go: "True \<notin> set (take 1 (faults w)) \<Longrightarrow> fault w = (False, after_calls 1 w)"
  by (cases w) (auto simp: fault_def after_calls_def split: list.splits)


lemma malloc_go: "True \<notin> set (take 1 (faults w)) \<Longrightarrow> malloc n w = (True, after_calls 1 w)"
  by (simp add: malloc_def fault_go)

lemma after_calls_0 [simp]: "after_calls 0 w = w"
  by (simp add: after_calls_def)


















text \<open>Where \<^verbatim>\<open>remove\<close> fails in \<^verbatim>\<open>cleanup\<close>, the file written so far stays: on an
  archive cut short within the second chunk of \<open>a.txt\<close>, the call returns NULL and
  \<open>out/a.txt\<close> holds the first chunk.\<close>

lemma partial_output_survives_failed_remove:
  "fst (ssmc_extract_file demo_ss ''x.ssmc'' (Some ''a.txt'') (- 1) ''out''
          ((demo_world [83, 1, 1, 9, 7, 1, 2, 3, 4] None [])\<lparr>remove_faults := [True]\<rparr>)) = None
   \<and> files (snd (ssmc_extract_file demo_ss ''x.ssmc'' (Some ''a.txt'') (- 1) ''out''
          ((demo_world [83, 1, 1, 9, 7, 1, 2, 3, 4] None [])\<lparr>remove_faults := [True]\<rparr>)))
        ''out/a.txt'' = Some [1, 2, 1, 2]"
  by code_simp

subsection \<open>Extraction: reassembly\<close>

text \<open>
  C2: the example scenario.  The archive's header declares digest width 1 and loads
  with its three sections; the manifest decodes to the single record \<open>a.txt\<close> with
  two chunk descriptors of decompressed lengths 4 and 6; the chunk index resolves both
  digests; both compressed ranges lie within the file; both decompressions succeed
  with payloads \<open>d1\<close> and \<open>d2\<close> of the declared lengths; the request is for index 0
  or for the name \<open>a.txt\<close>; no library call fails, and the archive is not itself the
  output path.  Then \<^verbatim>\<open>ssmc_extract_file\<close> returns the path \<open>dir/a.txt\<close>, and the
  only change on disk is that this file now holds \<open>d1 @ d2\<close>, which is 10 bytes.
\<close>

theorem two_chunk_extraction:
  assumes "faults w = []" "files w ap = Some bs" "h = header_of_archive ss bs"
    "sizeof_FileHeader ss \<le> length bs" "magic_ok ss h" "hash_type h = 1"
    "man_offset h + man_length h \<le> length bs"
    "chunk_index_offset h + chunk_index_length h \<le> length bs"
    "dict_offset h + dict_length h \<le> length bs"
    "parse_file_metadata_u64 ss (manifest_section ss bs) =
       Some [\<lparr>filename = ''a.txt'',
              chunk_metadata = [\<lparr>hash = h1, meta_length = 4\<rparr>, \<lparr>hash = h2, meta_length = 6\<rparr>]\<rparr>]"
    "prepare_chunk_index_u64 ss (chunk_index_section ss bs) = Some ih"
    "lookup_chunk_location_u64 ss ih h1 = Some l1" "lookup_chunk_location_u64 ss ih h2 = Some l2"
    "data_offset h + offset l1 + loc_length l1 \<le> length bs"
    "data_offset h + offset l2 + loc_length l2 \<le> length bs"
    "decompress_chunk_c ss (section_bytes bs (data_offset h + offset l1) (loc_length l1))
       (dictionary_section ss bs) 4 = Some d1"
    "decompress_chunk_c ss (section_bytes bs (data_offset h + offset l2) (loc_length l2))
       (dictionary_section ss bs) 6 = Some d2"
    "length d1 = 4" "length d2 = 6"
    "idx = 0 \<or> nm = Some ''a.txt''"
    "ap \<noteq> dir @ ''/a.txt''"
  shows "ssmc_extract_file ss ap nm idx dir w =
           (Some (dir @ ''/a.txt''), w\<lparr>files := (files w)(dir @ ''/a.txt'' \<mapsto> d1 @ d2)\<rparr>)
       \<and> length (d1 @ d2) = 10"
proof -
  let ?ms = "[\<lparr>filename = ''a.txt'',
              chunk_metadata = [\<lparr>hash = h1, meta_length = 4\<rparr>, \<lparr>hash = h2, meta_length = 6\<rparr>]\<rparr>]"
  let ?f = "\<lparr>content = bs, pos = 0\<rparr>"
  have hdr: "read_header ss ap w = (Some (?f, h), w)"
    using assms(1-5) by (simp add: read_header_ok')
  have s1: "read_section ?f (man_offset h) (man_length h) w = (Some (manifest_section ss bs), w)"
    and s2: "read_section ?f (chunk_index_offset h) (chunk_index_length h) w =
        (Some (chunk_index_section ss bs), w)"
    and s3: "read_section ?f (dict_offset h) (dict_length h) w = (Some (dictionary_section ss bs), w)"
    using assms(1,3,7-9)
    by (simp_all add: read_section_ok' manifest_section_def chunk_index_section_def
        dictionary_section_def)
  have t: "resolve_target ?ms nm idx = Some 0"
    using assms(20) by (auto simp: resolve_target_def split: option.splits)
  have p1: "chunk_payload (lookup_chunk_location_u64 ss ih) (decompress_chunk_c ss) bs h
      (dictionary_section ss bs) \<lparr>hash = h1, meta_length = 4\<rparr> = Some d1"
    using assms(12,14,16,18) by (simp add: chunk_payload_def)
  have p2: "chunk_payload (lookup_chunk_location_u64 ss ih) (decompress_chunk_c ss) bs h
      (dictionary_section ss bs) \<lparr>hash = h2, meta_length = 6\<rparr> = Some d2"
    using assms(13,15,17,19) by (simp add: chunk_payload_def)
  have pay: "\<forall>c \<in> set (chunk_metadata (?ms ! 0)).
       chunk_payload (lookup_chunk_location_u64 ss ih) (decompress_chunk_c ss) (content ?f) h
         (dictionary_section ss bs) c \<noteq> None"
    by (simp add: p1 p2)
  have "extract_body (parse_file_metadata_u64 ss) (prepare_chunk_index_u64 ss)
      (lookup_chunk_location_u64 ss) (decompress_chunk_c ss) ?f h (manifest_section ss bs)
      (chunk_index_section ss bs) (dictionary_section ss bs) nm idx dir w =
     (Some (output_path_of dir (filename (?ms ! 0))),
      w\<lparr>files := (files w)(output_path_of dir (filename (?ms ! 0)) \<mapsto>
         concat (map (\<lambda>c. the (chunk_payload (lookup_chunk_location_u64 ss ih)
             (decompress_chunk_c ss) (content ?f) h (dictionary_section ss bs) c))
           (chunk_metadata (?ms ! 0))))\<rparr>)"
  proof (rule extract_body_ok)
    show "faults w = []" by (fact assms(1))
    show "parse_file_metadata_u64 ss (manifest_section ss bs) = Some ?ms" by (fact assms(10))
    show "prepare_chunk_index_u64 ss (chunk_index_section ss bs) = Some ih" by (fact assms(11))
    show "resolve_target ?ms nm idx = Some 0" by (fact t)
    show "\<forall>c \<in> set (chunk_metadata (?ms ! 0)).
       chunk_payload (lookup_chunk_location_u64 ss ih) (decompress_chunk_c ss) (content ?f) h
         (dictionary_section ss bs) c \<noteq> None" by (fact pay)
  qed
  then have "extract_u64 ss ?f h (manifest_section ss bs) (chunk_index_section ss bs)
      (dictionary_section ss bs) nm idx dir w =
      (Some (dir @ ''/a.txt''), w\<lparr>files := (files w)(dir @ ''/a.txt'' \<mapsto> d1 @ d2)\<rparr>)"
    by (simp add: extract_u64_def p1 p2 output_path_of_def)
  then have "ssmc_extract_file ss ap nm idx dir w =
           (Some (dir @ ''/a.txt''), w\<lparr>files := (files w)(dir @ ''/a.txt'' \<mapsto> d1 @ d2)\<rparr>)"
    by (simp add: ssmc_extract_file_def hdr s1 s2 s3 assms(6))
  then show ?thesis using assms(18,19) by simp
qed

theorem two_chunk_extraction_witness:
  "ssmc_extract_file demo_ss ''x.ssmc'' (Some ''a.txt'') (- 1) ''out''
     (demo_world [83, 1, 2, 9, 7, 1, 2, 3, 4, 5] None [])
   = (Some ''out/a.txt'',
      (demo_world [83, 1, 2, 9, 7, 1, 2, 3, 4, 5] None [])
        \<lparr>files := (files (demo_world [83, 1, 2, 9, 7, 1, 2, 3, 4, 5] None []))
           (''out/a.txt'' \<mapsto> [1, 2, 1, 2, 3, 4, 5, 3, 4, 5])\<rparr>)"
proof -
  let ?bs = "[83, 1, 2, 9, 7, 1, 2, 3, 4, 5] :: byte list"
  let ?w = "demo_world ?bs None []"
  let ?h = "\<lparr>magic_num = [83], hash_type = 1, man_offset = 2, man_length = 1, dict_offset = 3,
        dict_length = 1, chunk_index_offset = 4, chunk_index_length = 1, data_offset = 5\<rparr>"
  let ?l1 = "\<lparr>offset = 0, loc_length = 2\<rparr>" and ?l2 = "\<lparr>offset = 2, loc_length = 3\<rparr>"
  have h: "?h = header_of_archive demo_ss ?bs"
    by (simp add: header_of_archive_def demo_ss_def)
  have secs: "manifest_section demo_ss ?bs = [2]" "chunk_index_section demo_ss ?bs = [7]"
    "dictionary_section demo_ss ?bs = [9]"
    by (simp_all add: manifest_section_def chunk_index_section_def dictionary_section_def
        h [symmetric] section_bytes_def)
  have "ssmc_extract_file demo_ss ''x.ssmc'' (Some ''a.txt'') (- 1) ''out'' ?w =
      (Some (''out'' @ ''/a.txt''),
       ?w\<lparr>files := (files ?w)(''out'' @ ''/a.txt'' \<mapsto> [1, 2, 1, 2] @ [3, 4, 5, 3, 4, 5])\<rparr>)
      \<and> length ([1, 2, 1, 2] @ [3, 4, 5, 3, 4, 5 :: byte]) = 10"
  proof (rule two_chunk_extraction [where h = ?h and ih = "()" and ?h1.0 = 10 and ?h2.0 = 11
        and ?l1.0 = ?l1 and ?l2.0 = ?l2 and bs = ?bs])
    show "faults ?w = []" "files ?w ''x.ssmc'' = Some ?bs"
      by (simp_all add: demo_world_def)
    show "?h = header_of_archive demo_ss ?bs" by (fact h)
    show "sizeof_FileHeader demo_ss \<le> length ?bs" "magic_ok demo_ss ?h"
      by (simp_all add: demo_ss_def magic_ok_def)
    show "hash_type ?h = 1" "man_offset ?h + man_length ?h \<le> length ?bs"
      "chunk_index_offset ?h + chunk_index_length ?h \<le> length ?bs"
      "dict_offset ?h + dict_length ?h \<le> length ?bs"
      by simp_all
    show "parse_file_metadata_u64 demo_ss (manifest_section demo_ss ?bs) =
       Some [\<lparr>filename = ''a.txt'',
              chunk_metadata = [\<lparr>hash = 10, meta_length = 4\<rparr>, \<lparr>hash = 11, meta_length = 6\<rparr>]\<rparr>]"
      unfolding secs by (simp add: demo_ss_def demo_manifest_def)
    show "prepare_chunk_index_u64 demo_ss (chunk_index_section demo_ss ?bs) = Some ()"
      unfolding secs by (simp add: demo_ss_def)
    show "lookup_chunk_location_u64 demo_ss () 10 = Some ?l1"
      "lookup_chunk_location_u64 demo_ss () 11 = Some ?l2"
      by (simp_all add: demo_ss_def)
    show "data_offset ?h + offset ?l1 + loc_length ?l1 \<le> length ?bs"
      "data_offset ?h + offset ?l2 + loc_length ?l2 \<le> length ?bs"
      by simp_all
    show "decompress_chunk_c demo_ss
        (section_bytes ?bs (data_offset ?h + offset ?l1) (loc_length ?l1))
        (dictionary_section demo_ss ?bs) 4 = Some [1, 2, 1, 2]"
      "decompress_chunk_c demo_ss
        (section_bytes ?bs (data_offset ?h + offset ?l2) (loc_length ?l2))
        (dictionary_section demo_ss ?bs) 6 = Some [3, 4, 5, 3, 4, 5]"
      unfolding secs by (simp_all add: section_bytes_def demo_ss_def)
    show "length [1, 2, 1, 2 :: byte] = 4" "length [3, 4, 5, 3, 4, 5 :: byte] = 6"
      by simp_all
    show "- 1 = (0::int) \<or> Some ''a.txt'' = Some ''a.txt''" by simp
    show "''x.ssmc'' \<noteq> ''out'' @ ''/a.txt''" by simp
  qed
  then show ?thesis by simp
qed

end
